theory Spec2Isabelle
  imports Complex_Main "HOL-Library.Word"
begin

unbundle bit_operations_syntax

section \<open>Audio helpers of the live session (geminiService.ts)\<close>

text \<open>
  A \<^verbatim>\<open>Float32Array\<close> element is a finite binary fraction; multiplying it by
  the power of two 32768 is exact in double precision, so a sample is modelled as a
  \<^typ>\<open>real\<close> and the product as the real product. The values NaN and the
  infinities (which a typed-array store turns into 0) are outside the model.
  An \<^verbatim>\<open>Int16Array\<close> element is a \<^typ>\<open>16 word\<close> read with \<^const>\<open>sint\<close>,
  a \<^verbatim>\<open>Uint8Array\<close> element an \<^typ>\<open>8 word\<close>, and a binary string a
  \<^typ>\<open>string\<close>, whose characters are exactly the codes 0 to 255.
\<close>

type_synonym int16 = "16 word"
type_synonym uint8 = "8 word"

text \<open>The integer part of a number, rounding towards zero (ECMAScript \<^verbatim>\<open>truncate\<close>).\<close>

definition js_truncate :: "real \<Rightarrow> int" where
  "js_truncate x = (if 0 \<le> x then \<lfloor>x\<rfloor> else \<lceil>x\<rceil>)"

text \<open>
  Storing a number into an \<^verbatim>\<open>Int16Array\<close> applies \<^verbatim>\<open>ToInt16\<close>: truncate,
  reduce modulo \<open>2^16\<close>, and read the result as two's complement.
\<close>

definition ToInt16 :: "real \<Rightarrow> int16" where
  "ToInt16 x = word_of_int (js_truncate x)"

text \<open>The first loop of \<^verbatim>\<open>createPcmBlob\<close>: \<^verbatim>\<open>int16[i] = data[i] * 32768\<close>.\<close>

definition pcm_sample :: "real \<Rightarrow> int16" where
  "pcm_sample s = ToInt16 (s * 32768)"

definition pcm_samples :: "real list \<Rightarrow> int16 list" where
  "pcm_samples data = map pcm_sample data"

text \<open>
  \<^verbatim>\<open>new Uint8Array(int16.buffer)\<close> views the same memory as bytes, two per element,
  low byte first (the byte order of every platform a browser runs on);
  \<^verbatim>\<open>new Int16Array(data.buffer)\<close> is the view in the other direction and raises
  a \<^verbatim>\<open>RangeError\<close> when the byte length is odd.
\<close>

definition int16_bytes :: "int16 \<Rightarrow> uint8 list" where
  "int16_bytes w = [ucast w, ucast (drop_bit 8 w)]"

definition bytes_of_int16s :: "int16 list \<Rightarrow> uint8 list" where
  "bytes_of_int16s ws = concat (map int16_bytes ws)"

definition int16_of_bytes :: "uint8 \<Rightarrow> uint8 \<Rightarrow> int16" where
  "int16_of_bytes lo hi = push_bit 8 (ucast hi) OR ucast lo"

fun int16s_of_bytes :: "uint8 list \<Rightarrow> int16 list" where
  "int16s_of_bytes (lo # hi # bs) = int16_of_bytes lo hi # int16s_of_bytes bs"
| "int16s_of_bytes _ = []"

subsection \<open>The browser's \<^verbatim>\<open>btoa\<close> and \<^verbatim>\<open>atob\<close>\<close>

text \<open>
  Base64 with the standard alphabet and padding. \<^verbatim>\<open>atob\<close> is the forgiving
  decoder: it drops ASCII white space, accepts missing padding, and fails on a length
  of 1 modulo 4 or on a character outside the alphabet.
\<close>

definition b64_char :: "nat \<Rightarrow> char" where
  "b64_char n =
     (if n < 26 then char_of (65 + n)
      else if n < 52 then char_of (71 + n)
      else if n < 62 then char_of (n - 4)
      else if n = 62 then CHR ''+'' else CHR ''/'')"

definition b64_val :: "char \<Rightarrow> nat option" where
  "b64_val c =
     (let n = (of_char c :: nat) in
      if 65 \<le> n \<and> n \<le> 90 then Some (n - 65)
      else if 97 \<le> n \<and> n \<le> 122 then Some (n - 71)
      else if 48 \<le> n \<and> n \<le> 57 then Some (n + 4)
      else if n = 43 then Some 62
      else if n = 47 then Some 63
      else None)"

fun b64_sextets :: "nat list \<Rightarrow> nat list" where
  "b64_sextets (a # b # c # bs) =
     [a div 4, (a mod 4) * 16 + b div 16, (b mod 16) * 4 + c div 64, c mod 64] @ b64_sextets bs"
| "b64_sextets [a, b] = [a div 4, (a mod 4) * 16 + b div 16, (b mod 16) * 4]"
| "b64_sextets [a] = [a div 4, (a mod 4) * 16]"
| "b64_sextets [] = []"

definition btoa :: "string \<Rightarrow> string" where
  "btoa binary =
     map b64_char (b64_sextets (map of_char binary))
       @ replicate ((3 - length binary mod 3) mod 3) (CHR ''='')"

definition ascii_whitespace :: "char \<Rightarrow> bool" where
  "ascii_whitespace c = ((of_char c :: nat) \<in> {9, 10, 12, 13, 32})"

definition strip_padding :: "string \<Rightarrow> string" where
  "strip_padding d =
     (if 2 \<le> length d \<and> drop (length d - 2) d = ''=='' then take (length d - 2) d
      else if 1 \<le> length d \<and> drop (length d - 1) d = ''='' then take (length d - 1) d
      else d)"

fun b64_octets :: "nat list \<Rightarrow> nat list" where
  "b64_octets (a # b # c # d # vs) =
     [a * 4 + b div 16, (b mod 16) * 16 + c div 4, (c mod 4) * 64 + d] @ b64_octets vs"
| "b64_octets [a, b, c] = [a * 4 + b div 16, (b mod 16) * 16 + c div 4]"
| "b64_octets [a, b] = [a * 4 + b div 16]"
| "b64_octets _ = []"

definition atob :: "string \<Rightarrow> string option" where
  "atob s =
     (let d = filter (\<lambda>c. \<not> ascii_whitespace c) s;
          d' = (if length d mod 4 = 0 then strip_padding d else d)
      in if length d' mod 4 = 1 then None
         else (case those (map b64_val d') of
                 None \<Rightarrow> None
               | Some vs \<Rightarrow> Some (map char_of (b64_octets vs))))"

subsection \<open>createPcmBlob, decode, decodeAudioData\<close>

record Blob =
  data :: string
  mimeType :: string

definition createPcmBlob :: "real list \<Rightarrow> Blob" where
  "createPcmBlob samples =
     (let int16 = pcm_samples samples;
          bytes = bytes_of_int16s int16;
          binary = map (\<lambda>b. char_of (unat b)) bytes;
          base64 = btoa binary
      in \<lparr>data = base64, mimeType = ''audio/pcm;rate=16000''\<rparr>)"

datatype js_exception = InvalidCharacterError | RangeError | NotSupportedError

definition decode :: "string \<Rightarrow> js_exception + uint8 list" where
  "decode base64 =
     (case atob base64 of
        None \<Rightarrow> Inl InvalidCharacterError
      | Some binaryString \<Rightarrow> Inr (map (\<lambda>c. of_nat (of_char c)) binaryString))"

record AudioBuffer =
  sampleRate :: nat
  frames :: nat
  channels :: "real list list"

text \<open>
  An \<^verbatim>\<open>AudioBuffer\<close> has a sample rate, a length in frames (\<open>frames\<close>) and
  one array of samples per channel. \<^verbatim>\<open>ctx.createBuffer(numChannels, frameCount,
  sampleRate)\<close> belongs to the playback device; it refuses a channel count, a frame
  count or a sample rate of zero. A frame count that is not whole is truncated by the
  device, and the stores past the end of a channel are ignored, so each channel holds
  \<open>length dataInt16 div numChannels\<close> samples.
\<close>

definition decodeAudioData ::
  "uint8 list \<Rightarrow> nat \<Rightarrow> nat \<Rightarrow> js_exception + AudioBuffer" where
  "decodeAudioData bytes rate numChannels =
     (if odd (length bytes) then Inl RangeError
      else
        let dataInt16 = int16s_of_bytes bytes;
            frameCount = length dataInt16 div numChannels
        in if numChannels = 0 \<or> frameCount = 0 \<or> rate = 0 then Inl NotSupportedError
           else Inr \<lparr>sampleRate = rate,
                     frames = frameCount,
                     channels =
                       map (\<lambda>channel.
                              map (\<lambda>i. real_of_int (sint (dataInt16 ! (i * numChannels + channel)))
                                          / 32768)
                                [0..<frameCount])
                         [0..<numChannels]\<rparr>)"

definition duration :: "AudioBuffer \<Rightarrow> real" where
  "duration b = real (frames b) / real (sampleRate b)"

text \<open>
  The composition the live session performs on an inbound frame, applied to an
  outbound one: \<^verbatim>\<open>decodeAudioData(decode(blob.data), ctx, 24000, 1)\<close>. A
  16-bit integer divided by 32768 is a binary fraction that a \<^verbatim>\<open>Float32Array\<close>
  element holds exactly.
\<close>

definition pcm_round_trip :: "real list \<Rightarrow> js_exception + AudioBuffer" where
  "pcm_round_trip samples =
     (case decode (data (createPcmBlob samples)) of
        Inl e \<Rightarrow> Inl e
      | Inr bytes \<Rightarrow> decodeAudioData bytes 24000 1)"

text \<open>
  The conversion contract in the specification's words, for comparison with
  \<^const>\<open>pcm_sample\<close>: round, then clip to the signed 16-bit range.
\<close>

definition spec_pcm_sample :: "real \<Rightarrow> int" where
  "spec_pcm_sample s = max (- 32768) (min 32767 (round (s * 32768)))"

subsection \<open>Playback scheduling (the \<^verbatim>\<open>onmessage\<close> callback of the live session)\<close>

text \<open>
  Times are seconds, modelled as reals (the rounding of an addition of two doubles is
  not modelled). Every call \<^verbatim>\<open>source.start(nextStartTime)\<close>
  is recorded with the argument passed (\<open>when\<close>), the device clock
  \<^verbatim>\<open>currentTime\<close> at that moment and the duration of the buffer. The playback
  device starts a source at once when the requested time is already past, which is
  \<open>playback_start\<close>.
\<close>

record scheduled =
  "when" :: real
  clock :: real
  dur :: real

record playback =
  nextStartTime :: real
  started :: "scheduled list"

definition playback_start :: "scheduled \<Rightarrow> real" where
  "playback_start e = max (clock e) (when e)"

definition onmessage :: "real \<Rightarrow> string option \<Rightarrow> bool \<Rightarrow> playback \<Rightarrow> playback" where
  "onmessage currentTime audioData outputAudioContext p =
     (case audioData of
        None \<Rightarrow> p
      | Some d \<Rightarrow>
          if d = [] \<or> \<not> outputAudioContext then p
          else (case decode d of
                  Inl e \<Rightarrow> p
                | Inr bytes \<Rightarrow>
                    (case decodeAudioData bytes 24000 1 of
                       Inl e \<Rightarrow> p
                     | Inr audioBuffer \<Rightarrow>
                         p\<lparr>started := started p @
                              [\<lparr>when = nextStartTime p, clock = currentTime,
                                dur = duration audioBuffer\<rparr>],
                           nextStartTime :=
                             max currentTime (nextStartTime p) + duration audioBuffer\<rparr>)))"

text \<open>Inbound frames in receipt order, each with the device clock at its arrival.\<close>

definition receive :: "(real \<times> string option) list \<Rightarrow> playback \<Rightarrow> playback" where
  "receive ms p = fold (\<lambda>(t, d). onmessage t d True) ms p"

section \<open>The streaming generation orchestrator (\<^verbatim>\<open>streamAppContent\<close>)\<close>

text \<open>
  \<^verbatim>\<open>InteractionData\<close> is declared in the types module; its fields are the six
  the source writes when it builds a record and reads afterwards. The fields
  \<^verbatim>\<open>id\<close>, \<^verbatim>\<open>type\<close> and \<^verbatim>\<open>value\<close> are named \<open>iid\<close>, \<open>itype\<close> and
  \<open>ivalue\<close> here. An optional field is an \<^typ>\<open>'a option\<close>; a string is truthy
  when it is present and not empty.
\<close>

record InteractionData =
  iid :: string
  itype :: string
  ivalue :: "string option"
  elementType :: string
  elementText :: string
  appContext :: "string option"

definition truthy :: "string option \<Rightarrow> bool" where
  "truthy v = (case v of None \<Rightarrow> False | Some s \<Rightarrow> s \<noteq> [])"

text \<open>
  What the remote generator sends: chunks, each with an optional text and the
  grounding chunks of its first candidate (none when the metadata is absent), and
  possibly a failure raised after the chunks delivered so far.
\<close>

record GroundingWeb =
  uri :: string
  title :: "string option"

record GroundingChunk =
  web :: "GroundingWeb option"

record ResponseChunk =
  chunk_text :: "string option"
  groundingChunks :: "GroundingChunk list"

datatype thrown = ErrorInstance string | MessageObject string | StringValue string | OtherValue

record Response =
  chunks :: "ResponseChunk list"
  failure :: "thrown option"

text \<open>
  The request is composed from the three arguments of \<^verbatim>\<open>streamAppContent\<close> and
  constants, so the remote generator is a function of these arguments.
\<close>

type_synonym generator = "InteractionData list \<Rightarrow> int \<Rightarrow> string option \<Rightarrow> Response"

text \<open>
  A JavaScript \<^verbatim>\<open>Map\<close> keeps its keys in insertion order; \<^verbatim>\<open>set\<close> on a key
  already present replaces the value and leaves the key where it is.
\<close>

fun map_set :: "'k \<Rightarrow> 'v \<Rightarrow> ('k \<times> 'v) list \<Rightarrow> ('k \<times> 'v) list" where
  "map_set k v [] = [(k, v)]"
| "map_set k v ((k', v') # m) =
     (if k' = k then (k, v) # m else (k', v') # map_set k v m)"

definition collect_grounding ::
  "ResponseChunk \<Rightarrow> (string \<times> string option) list \<Rightarrow> (string \<times> string option) list" where
  "collect_grounding chunk allGroundingChunks =
     fold (\<lambda>chunkInfo m.
             case web chunkInfo of
               None \<Rightarrow> m
             | Some w \<Rightarrow> map_set (uri w) (title w) m)
       (groundingChunks chunk) allGroundingChunks"

definition grounding_of :: "ResponseChunk list \<Rightarrow> (string \<times> string option) list" where
  "grounding_of cs = fold collect_grounding cs []"

definition chunk_yield :: "ResponseChunk \<Rightarrow> string list" where
  "chunk_yield chunk = (if truthy (chunk_text chunk) then [the (chunk_text chunk)] else [])"

definition replace_all :: "char \<Rightarrow> string \<Rightarrow> string \<Rightarrow> string" where
  "replace_all c r s = concat (map (\<lambda>x. if x = c then r else [x]) s)"

definition safeTitle :: "(string \<Rightarrow> string) \<Rightarrow> string \<Rightarrow> string option \<Rightarrow> string" where
  "safeTitle encodeURI u t =
     (if truthy t
      then replace_all (CHR ''>'') ''&gt;'' (replace_all (CHR ''<'') ''&lt;'' (the t))
      else encodeURI u)"

definition source_item :: "(string \<Rightarrow> string) \<Rightarrow> string \<times> string option \<Rightarrow> string" where
  \<open>source_item encodeURI e =
     ''<li class="llm-text text-sm ml-2"><a href="'' @ encodeURI (fst e)
       @ ''" target="_blank" rel="noopener noreferrer" class="text-blue-600 hover:underline">''
       @ safeTitle encodeURI (fst e) (snd e) @ ''</a></li>''\<close>

definition sourcesHtml :: "(string \<Rightarrow> string) \<Rightarrow> (string \<times> string option) list \<Rightarrow> string" where
  \<open>sourcesHtml encodeURI allGroundingChunks =
     ''<div class="llm-container mt-4 border-t pt-2"><h3 class="llm-title text-base">Sources</h3><ul class="list-disc list-inside">''
       @ concat (map (source_item encodeURI) allGroundingChunks) @ ''</ul></div>''\<close>

definition errorMessage :: "thrown \<Rightarrow> string" where
  "errorMessage e =
     ''An error occurred while generating content.'' @
       (case e of
          ErrorInstance m \<Rightarrow> '' Details: '' @ m
        | MessageObject m \<Rightarrow> '' Details: '' @ m
        | StringValue m \<Rightarrow> '' Details: '' @ m
        | OtherValue \<Rightarrow> [])"

definition error_block :: "thrown \<Rightarrow> string" where
  \<open>error_block e =
     ''<div class="p-4 text-red-700 bg-red-100 rounded-lg">\<newline>      <p class="font-bold text-lg">Error Generating Content</p>\<newline>      <p class="mt-2">''
       @ errorMessage e
       @ ''</p>\<newline>      <p class="mt-1">This may be due to an API key issue, network problem, or misconfiguration. Please check the developer console for more details.</p>\<newline>    </div>''\<close>

definition configuration_error_block :: string where
  \<open>configuration_error_block =
     ''<div class="p-4 text-red-700 bg-red-100 rounded-lg">\<newline>      <p class="font-bold text-lg">Configuration Error</p>\<newline>      <p class="mt-2">The API_KEY is not configured. Please set the API_KEY environment variable.</p>\<newline>    </div>''\<close>

definition no_interaction_block :: string where
  \<open>no_interaction_block =
     ''<div class="p-4 text-orange-700 bg-orange-100 rounded-lg">\<newline>      <p class="font-bold text-lg">No interaction data provided.</p>\<newline>    </div>''\<close>

text \<open>
  The \<^verbatim>\<open>try\<close> block: the texts of the chunks in arrival order, then the sources
  block when the stream ended normally with at least one source collected, or the
  error block when it failed.
\<close>

definition stream_response :: "(string \<Rightarrow> string) \<Rightarrow> Response \<Rightarrow> string list" where
  "stream_response encodeURI response =
     concat (map chunk_yield (chunks response)) @
       (case failure response of
          None \<Rightarrow>
            (let allGroundingChunks = grounding_of (chunks response)
             in if length allGroundingChunks > 0
                then [sourcesHtml encodeURI allGroundingChunks] else [])
        | Some e \<Rightarrow> [error_block e])"

text \<open>
  The fragments \<^verbatim>\<open>streamAppContent\<close> yields, in order. \<open>API_KEY\<close> tells whether
  the environment variable is set. The generator never raises: every failure of the
  remote call is caught and turned into a last fragment.
\<close>

definition streamAppContent ::
  "bool \<Rightarrow> (string \<Rightarrow> string) \<Rightarrow> generator \<Rightarrow>
   InteractionData list \<Rightarrow> int \<Rightarrow> string option \<Rightarrow> string list" where
  "streamAppContent API_KEY encodeURI generateContentStream
       interactionHistory currentMaxHistoryLength previousContent =
     (if \<not> API_KEY then [configuration_error_block]
      else if length interactionHistory = 0 then [no_interaction_block]
      else stream_response encodeURI
             (generateContentStream interactionHistory currentMaxHistoryLength previousContent))"

section \<open>The application component (\<^verbatim>\<open>App\<close>)\<close>

text \<open>
  \<^verbatim>\<open>AppDefinition\<close>, declared in the types module, with the fields \<^verbatim>\<open>id\<close>
  and \<^verbatim>\<open>name\<close> (as \<open>app_id\<close> and \<open>app_name\<close>); icon, description and colour
  are not read by the code below.
\<close>

record AppDefinition =
  app_id :: string
  app_name :: string

text \<open>
  The state of the component: the values kept with \<^verbatim>\<open>useState\<close>, and for each
  of the three audio refs whether it holds an object. The content cache, a
  \<^verbatim>\<open>Record<string, string>\<close>, is a map.
\<close>

record app_state =
  activeApp :: "AppDefinition option"
  llmContent :: string
  isLoading :: bool
  error :: "string option"
  interactionHistory :: "InteractionData list"
  appContentCache :: "string \<rightharpoonup> string"
  currentAppPath :: "string list"
  inputAudioContext :: bool
  outputAudioContext :: bool
  liveSession :: bool

text \<open>
  One call of \<^verbatim>\<open>internalHandleLlmRequest\<close> that has passed its guard: its local
  \<^verbatim>\<open>accumulatedContent\<close>, the fragments its stream has still to deliver, whether
  the stream raises after them, and whether the call has run its \<^verbatim>\<open>finally\<close>.
\<close>

datatype stream_end = Returns | Raises

record llm_call =
  accumulatedContent :: string
  pending :: "string list"
  ending :: stream_end
  settled :: bool

record system =
  app :: app_state
  calls :: "llm_call list"

text \<open>
  What the component takes from outside: whether \<^verbatim>\<open>process.env.API_KEY\<close> is set,
  the constant \<^verbatim>\<open>MAX_HISTORY_LENGTH\<close> of the constants module, the built-in
  \<^verbatim>\<open>encodeURI\<close>, and the remote generator, which may answer each call differently
  (its first argument is the number of calls started before).
\<close>

record env =
  API_KEY :: bool
  MAX_HISTORY_LENGTH :: int
  encodeURI :: "string \<Rightarrow> string"
  generateContentStream :: "nat \<Rightarrow> generator"

text \<open>\<^verbatim>\<open>Array.prototype.join\<close> and \<^verbatim>\<open>xs.slice(0, e)\<close> (a negative end counts from the back).\<close>

fun join :: "string \<Rightarrow> string list \<Rightarrow> string" where
  "join sep [] = []"
| "join sep [x] = x"
| "join sep (x # y # ys) = x @ sep @ join sep (y # ys)"

definition slice0 :: "'a list \<Rightarrow> int \<Rightarrow> 'a list" where
  "slice0 xs e = (if e < 0 then take (nat (int (length xs) + e)) xs else take (nat e) xs)"

definition error_loading_block :: string where
  \<open>error_loading_block =
     ''<div class="p-4 text-red-600 bg-red-100 rounded-md">Error loading content.</div>''\<close>

definition session_ended_block :: string where
  \<open>session_ended_block =
     ''<div class="p-8 text-center"><h3 class="llm-title">Session Ended</h3><p class="llm-text">The voice session has been terminated.</p><button class="llm-button mt-4" data-interaction-id="open-ai-voice">Start New Session</button></div>''\<close>

definition handleCloseAppView :: "app_state \<Rightarrow> app_state" where
  "handleCloseAppView s =
     s\<lparr>liveSession := False, inputAudioContext := False, outputAudioContext := False,
       activeApp := None, llmContent := [], error := None,
       interactionHistory := [], currentAppPath := [], isLoading := False\<rparr>"

text \<open>
  \<^verbatim>\<open>internalHandleLlmRequest\<close> up to its first suspension: the guard on the
  history, the two state writes, and the stream it starts.
\<close>

definition internalHandleLlmRequest ::
  "env \<Rightarrow> InteractionData list \<Rightarrow> int \<Rightarrow> string option \<Rightarrow> system \<Rightarrow> system" where
  "internalHandleLlmRequest e historyForLlm maxHistoryLength previousContent sys =
     (if length historyForLlm = 0
      then sys\<lparr>app := (app sys)\<lparr>error := Some ''No interaction data to process.''\<rparr>\<rparr>
      else sys\<lparr>app := (app sys)\<lparr>isLoading := True, error := None\<rparr>,
               calls := calls sys @
                 [\<lparr>accumulatedContent = [],
                   pending = streamAppContent (API_KEY e) (encodeURI e)
                               (generateContentStream e (length (calls sys)))
                               historyForLlm maxHistoryLength previousContent,
                   ending = Returns,
                   settled = False\<rparr>]\<rparr>)"

text \<open>
  The rest of the call, one resumption at a time: the body of the \<^verbatim>\<open>for await\<close>
  loop for the next fragment, or else the \<^verbatim>\<open>catch\<close> block when the stream raises,
  and the \<^verbatim>\<open>finally\<close> block.
\<close>

definition resume :: "nat \<Rightarrow> system \<Rightarrow> system" where
  "resume k sys =
     (if length (calls sys) \<le> k then sys
      else
        let c = calls sys ! k in
        if settled c then sys
        else (case pending c of
                chunk # rest \<Rightarrow>
                  sys\<lparr>app := (app sys)\<lparr>llmContent := llmContent (app sys) @ chunk\<rparr>,
                      calls := (calls sys)
                        [k := c\<lparr>accumulatedContent := accumulatedContent c @ chunk,
                                pending := rest\<rparr>]\<rparr>
              | [] \<Rightarrow>
                  (case ending c of
                     Returns \<Rightarrow>
                       sys\<lparr>app := (app sys)\<lparr>isLoading := False\<rparr>,
                           calls := (calls sys)[k := c\<lparr>settled := True\<rparr>]\<rparr>
                   | Raises \<Rightarrow>
                       sys\<lparr>app := (app sys)
                             \<lparr>error := Some ''Failed to stream content from the API.'',
                              llmContent := error_loading_block,
                              isLoading := False\<rparr>,
                           calls := (calls sys)
                             [k := c\<lparr>accumulatedContent := error_loading_block,
                                     settled := True\<rparr>]\<rparr>)))"

text \<open>The effect that caches content when loading finishes; it runs after a render.\<close>

definition cache_effect :: "app_state \<Rightarrow> app_state" where
  "cache_effect s =
     (if (case activeApp s of None \<Rightarrow> False | Some a \<Rightarrow> app_id a = ''task_handoff_app'')
      then s
      else if \<not> isLoading s \<and> length (currentAppPath s) > 0 \<and> llmContent s \<noteq> []
      then
        let cacheKey = join ''__'' (currentAppPath s) in
        if appContentCache s cacheKey \<noteq> Some (llmContent s)
        then s\<lparr>appContentCache := (appContentCache s)(cacheKey \<mapsto> llmContent s)\<rparr>
        else s
      else s)"

text \<open>
  The last part of \<^verbatim>\<open>handleInteraction\<close>, reached by every interaction that none
  of the special branches takes: the history and the path are extended, the content
  is cleared, and the content comes from the cache or from a new generation.
\<close>

definition standard_app_logic :: "env \<Rightarrow> InteractionData \<Rightarrow> system \<Rightarrow> system" where
  "standard_app_logic e interactionData sys =
     (let s = app sys;
          previousContent = llmContent s;
          newHistory =
            interactionData # slice0 (interactionHistory s) (MAX_HISTORY_LENGTH e - 1);
          newPath =
            (if activeApp s \<noteq> None then currentAppPath s @ [iid interactionData]
             else [iid interactionData]);
          cacheKey = join ''__'' newPath;
          s' = s\<lparr>interactionHistory := newHistory, currentAppPath := newPath,
                 llmContent := [], error := None\<rparr>
      in if truthy (appContentCache s cacheKey) \<and>
            (case activeApp s of None \<Rightarrow> True | Some a \<Rightarrow> app_id a \<noteq> ''task_handoff_app'')
         then sys\<lparr>app := s'\<lparr>llmContent := the (appContentCache s cacheKey),
                             isLoading := False\<rparr>\<rparr>
         else internalHandleLlmRequest e newHistory (MAX_HISTORY_LENGTH e)
                (Some previousContent) (sys\<lparr>app := s'\<rparr>))"

text \<open>
  \<^verbatim>\<open>handleInteraction\<close>: the dispatch on the identifier, in the order of the
  source. The image, video, live-session start and install branches return before
  the history, the path and the cache are looked at. They call external
  collaborators and write only the content, the loading flag, the error and the audio
  refs; each such write, before or after a suspension, is an event of its own
  (\<open>flow_write\<close> below), and closing the app at the end of an installation is the
  event of the exit button. Here these branches contribute the dispatch alone.
\<close>

definition handleInteraction :: "env \<Rightarrow> InteractionData \<Rightarrow> system \<Rightarrow> system" where
  "handleInteraction e interactionData sys =
     (if iid interactionData = ''generate_imagen_action'' \<and> truthy (ivalue interactionData)
      then sys
      else if iid interactionData = ''generate_veo_action'' \<and> truthy (ivalue interactionData)
      then sys
      else if iid interactionData = ''start-live-session'' then sys
      else if iid interactionData = ''stop-live-session''
      then sys\<lparr>app := (app sys)\<lparr>inputAudioContext := False, outputAudioContext := False,
                                 liveSession := False, llmContent := session_ended_block\<rparr>\<rparr>
      else if iid interactionData = ''install_new_app_action'' \<and> truthy (ivalue interactionData)
      then sys
      else if iid interactionData = ''app_close_button''
      then sys\<lparr>app := handleCloseAppView (app sys)\<rparr>
      else standard_app_logic e interactionData sys)"

text \<open>The first interaction record of an app, as \<^verbatim>\<open>handleAppOpen\<close> builds it.\<close>

definition initialInteraction :: "AppDefinition \<Rightarrow> InteractionData" where
  "initialInteraction a =
     \<lparr>iid = app_id a, itype = ''app_open'', ivalue = None, elementType = ''icon'',
      elementText = app_name a, appContext = Some (app_id a)\<rparr>"

definition handleAppOpen :: "env \<Rightarrow> AppDefinition \<Rightarrow> system \<Rightarrow> system" where
  "handleAppOpen e a sys =
     (let s = app sys;
          newHistory = [initialInteraction a];
          appPath = [app_id a];
          cacheKey = join ''__'' appPath;
          s' = s\<lparr>interactionHistory := newHistory, currentAppPath := appPath,
                 activeApp := Some a, llmContent := [], error := None\<rparr>
      in if app_id a \<noteq> ''task_handoff_app'' \<and> truthy (appContentCache s cacheKey)
         then sys\<lparr>app := s'\<lparr>llmContent := the (appContentCache s cacheKey),
                             isLoading := False\<rparr>\<rparr>
         else internalHandleLlmRequest e newHistory (MAX_HISTORY_LENGTH e) None
                (sys\<lparr>app := s'\<rparr>))"

text \<open>
  The state writes of the branches that go through external collaborators (image,
  video and icon generation, the live session): a functional update of the content, and
  assignments of the loading flag, the error and the three audio refs.
\<close>

datatype flow_write =
    SetLlmContent "string \<Rightarrow> string"
  | SetIsLoading bool
  | SetError "string option"
  | SetAudioRefs bool bool bool

fun flow_apply :: "flow_write \<Rightarrow> app_state \<Rightarrow> app_state" where
  "flow_apply (SetLlmContent f) s = s\<lparr>llmContent := f (llmContent s)\<rparr>"
| "flow_apply (SetIsLoading b) s = s\<lparr>isLoading := b\<rparr>"
| "flow_apply (SetError m) s = s\<lparr>error := m\<rparr>"
| "flow_apply (SetAudioRefs i out l) s =
     s\<lparr>inputAudioContext := i, outputAudioContext := out, liveSession := l\<rparr>"

text \<open>
  The event loop runs one of these at a time: a click on a desktop icon, a click
  inside the generated content, the window's exit button, the resumption of call
  \<open>k\<close> with the next item of its stream, a render followed by the cache effect,
  or a write of an external flow.
\<close>

datatype event =
    AppOpen AppDefinition
  | Interaction InteractionData
  | ExitToDesktop
  | Resume nat
  | Render
  | Flow flow_write

fun step :: "env \<Rightarrow> event \<Rightarrow> system \<Rightarrow> system" where
  "step e (AppOpen a) sys = handleAppOpen e a sys"
| "step e (Interaction d) sys = handleInteraction e d sys"
| "step e ExitToDesktop sys = sys\<lparr>app := handleCloseAppView (app sys)\<rparr>"
| "step e (Resume k) sys = resume k sys"
| "step e Render sys = sys\<lparr>app := cache_effect (app sys)\<rparr>"
| "step e (Flow w) sys = sys\<lparr>app := flow_apply w (app sys)\<rparr>"

definition run :: "env \<Rightarrow> event list \<Rightarrow> system \<Rightarrow> system" where
  "run e evs sys = fold (step e) evs sys"

definition initial_state :: app_state where
  "initial_state =
     \<lparr>activeApp = None, llmContent = [], isLoading = False, error = None,
      interactionHistory = [], appContentCache = Map.empty, currentAppPath = [],
      inputAudioContext = False, outputAudioContext = False, liveSession = False\<rparr>"

definition initial_system :: system where
  "initial_system = \<lparr>app = initial_state, calls = []\<rparr>"

section \<open>Notions used to state the properties\<close>

text \<open>Every source started so far ends no later than the cursor.\<close>

definition ends_before_cursor :: "playback \<Rightarrow> bool" where
  "ends_before_cursor p = (\<forall>e\<in>set (started p). playback_start e + dur e \<le> nextStartTime p)"

text \<open>The calls of \<^verbatim>\<open>allGroundingChunks.set\<close> a response causes, in order.\<close>

definition citations :: "ResponseChunk list \<Rightarrow> (string \<times> string option) list" where
  "citations cs =
     concat (map (\<lambda>chunk.
       concat (map (\<lambda>chunkInfo. case web chunkInfo of None \<Rightarrow> [] | Some w \<Rightarrow> [(uri w, title w)])
                 (groundingChunks chunk))) cs)"

text \<open>The cursor of a new session: \<^verbatim>\<open>let nextStartTime = 0\<close>, nothing started.\<close>

definition initial_playback :: playback where
  "initial_playback = \<lparr>nextStartTime = 0, started = []\<rparr>"

text \<open>A response of two fragments that cite the same URI under two titles.\<close>

definition two_titles :: Response where
  "two_titles =
     \<lparr>chunks =
        [\<lparr>chunk_text = Some ''a'',
          groundingChunks = [\<lparr>web = Some \<lparr>uri = ''https://x.test'', title = Some ''First''\<rparr>\<rparr>]\<rparr>,
         \<lparr>chunk_text = Some ''b'',
          groundingChunks = [\<lparr>web = Some \<lparr>uri = ''https://x.test'', title = Some ''Second''\<rparr>\<rparr>]\<rparr>],
      failure = None\<rparr>"

text \<open>An interaction that none of the special branches of \<^verbatim>\<open>handleInteraction\<close> takes.\<close>

definition standard_interaction :: "InteractionData \<Rightarrow> bool" where
  "standard_interaction d =
     (\<not> (iid d = ''generate_imagen_action'' \<and> truthy (ivalue d)) \<and>
      \<not> (iid d = ''generate_veo_action'' \<and> truthy (ivalue d)) \<and>
      iid d \<noteq> ''start-live-session'' \<and>
      iid d \<noteq> ''stop-live-session'' \<and>
      \<not> (iid d = ''install_new_app_action'' \<and> truthy (ivalue d)) \<and>
      iid d \<noteq> ''app_close_button'')"

text \<open>A trace in which a render follows every event.\<close>

definition rendered :: "event list \<Rightarrow> event list" where
  "rendered evs = concat (map (\<lambda>ev. [ev, Render]) evs)"

text \<open>
  A concrete environment: the first call of the remote generator sends two texts and
  then fails, every later call sends two texts and ends normally.
\<close>

definition demo_response :: "nat \<Rightarrow> Response" where
  "demo_response n =
     (if n = 0
      then \<lparr>chunks = [\<lparr>chunk_text = Some ''<p>'', groundingChunks = []\<rparr>,
                      \<lparr>chunk_text = Some ''old'', groundingChunks = []\<rparr>],
            failure = Some (ErrorInstance ''network'')\<rparr>
      else \<lparr>chunks = [\<lparr>chunk_text = Some ''<h1>'', groundingChunks = []\<rparr>,
                      \<lparr>chunk_text = Some ''new'', groundingChunks = []\<rparr>],
            failure = None\<rparr>)"

definition demo_env :: env where
  "demo_env =
     \<lparr>API_KEY = True, MAX_HISTORY_LENGTH = 3, encodeURI = (\<lambda>u. u),
      generateContentStream = (\<lambda>n h m p. demo_response n)\<rparr>"

definition calendar_app :: AppDefinition where
  "calendar_app = \<lparr>app_id = ''calendar_app'', app_name = ''Calendar''\<rparr>"


definition click :: "string \<Rightarrow> InteractionData" where
  "click i =
     \<lparr>iid = i, itype = ''generic_click'', ivalue = None, elementType = ''button'',
      elementText = i, appContext = Some ''calendar_app''\<rparr>"

text \<open>
  The calendar app while its first generation is streaming: one fragment has been
  delivered, two are pending.
\<close>

definition streaming_system :: system where
  "streaming_system = run demo_env [AppOpen calendar_app, Resume 0] initial_system"


text \<open>
  The state in which the cache effect is not switched off: no app is active, or the
  active app is not the stateless one.
\<close>

definition active_not_stateless :: "app_state \<Rightarrow> bool" where
  "active_not_stateless s =
     (case activeApp s of None \<Rightarrow> True | Some a \<Rightarrow> app_id a \<noteq> ''task_handoff_app'')"

text \<open>
  The path and the history that the standard logic of \<^verbatim>\<open>handleInteraction\<close>
  computes for an interaction (\<^verbatim>\<open>newPath\<close> and \<^verbatim>\<open>newHistory\<close>).
\<close>

definition path_after :: "app_state \<Rightarrow> InteractionData \<Rightarrow> string list" where
  "path_after s d =
     (if activeApp s \<noteq> None then currentAppPath s @ [iid d] else [iid d])"

definition history_after :: "env \<Rightarrow> app_state \<Rightarrow> InteractionData \<Rightarrow> InteractionData list" where
  "history_after e s d = d # slice0 (interactionHistory s) (MAX_HISTORY_LENGTH e - 1)"

text \<open>The calendar app on screen with its first screen loaded and no call started.\<close>

definition in_app_system :: system where
  "in_app_system =
     \<lparr>app = initial_state
        \<lparr>activeApp := Some calendar_app,
         llmContent := ''<h1>Calendar</h1>'',
         interactionHistory := [initialInteraction calendar_app],
         currentAppPath := [''calendar_app'']\<rparr>,
      calls = []\<rparr>"
section \<open>Properties of the audio helpers\<close>

subsection \<open>Base64 round trip\<close>

lemma b64_val_char: "n < 64 \<Longrightarrow> b64_val (b64_char n) = Some n"
  by (auto simp: b64_char_def b64_val_def Let_def)

lemma b64_char_not_pad: "n < 64 \<Longrightarrow> b64_char n \<noteq> CHR ''=''"
proof
  assume "n < 64" and "b64_char n = CHR ''=''"
  then have "b64_val (CHR ''='') = Some n" using b64_val_char by metis
  then show False by (simp add: b64_val_def)
qed

lemma b64_char_not_ws: "n < 64 \<Longrightarrow> \<not> ascii_whitespace (b64_char n)"
proof
  assume n: "n < 64" and "ascii_whitespace (b64_char n)"
  then have "b64_val (b64_char n) = None"
    by (auto simp: ascii_whitespace_def b64_val_def Let_def)
  with n show False by (simp add: b64_val_char)
qed

lemma sextet_bounds:
  fixes a b c :: nat
  assumes "b < 256" "c < 256"
  shows "(a mod 4) * 16 + b div 16 < 64" "(b mod 16) * 4 + c div 64 < 64"
    "(b mod 16) * 4 < 64" "(a mod 4) * 16 < 64"
proof -
  have "b div 16 < 16" "c div 64 < 4" using assms by simp_all
  moreover have "a mod 4 < 4" "b mod 16 < 16" by simp_all
  ultimately show "(a mod 4) * 16 + b div 16 < 64" "(b mod 16) * 4 + c div 64 < 64"
    "(b mod 16) * 4 < 64" "(a mod 4) * 16 < 64" by linarith+
qed

lemma octet_1:
  fixes a b :: nat
  assumes "b < 256"
  shows "a div 4 * 4 + ((a mod 4) * 16 + b div 16) div 16 = a"
proof -
  from assms have "b div 16 < 16" by simp
  then have "((a mod 4) * 16 + b div 16) div 16 = a mod 4" by simp
  then show ?thesis by simp
qed

lemma octet_2:
  fixes a b c :: nat
  assumes "b < 256" "c < 256"
  shows "(((a mod 4) * 16 + b div 16) mod 16) * 16 + ((b mod 16) * 4 + c div 64) div 4 = b"
proof -
  from assms have "c div 64 < 4" by simp
  then have 1: "((b mod 16) * 4 + c div 64) div 4 = b mod 16" by simp
  from assms have "b div 16 < 16" by simp
  then have 2: "((a mod 4) * 16 + b div 16) mod 16 = b div 16" by simp
  show ?thesis unfolding 1 2 by simp
qed

lemma octet_3:
  fixes b c :: nat
  assumes "c < 256"
  shows "(((b mod 16) * 4 + c div 64) mod 4) * 64 + c mod 64 = c"
proof -
  from assms have "c div 64 < 4" by simp
  then have 2: "((b mod 16) * 4 + c div 64) mod 4 = c div 64" by simp
  show ?thesis unfolding 2 by simp
qed

lemma b64_sextets_bound:
  "\<forall>b\<in>set bs. b < 256 \<Longrightarrow> \<forall>v\<in>set (b64_sextets bs). v < 64"
proof (induction bs rule: b64_sextets.induct)
  case (1 a b c bs)
  then have "a < 256" "b < 256" "c < 256" by simp_all
  with 1 show ?case by (simp add: sextet_bounds)
next
  case (2 a b)
  then have "a < 256" "b < 256" by simp_all
  then show ?case by (simp add: sextet_bounds)
next
  case (3 a)
  then have "a < 256" by simp
  then show ?case by (simp add: sextet_bounds)
qed simp

lemma b64_octets_sextets:
  "\<forall>b\<in>set bs. b < 256 \<Longrightarrow> b64_octets (b64_sextets bs) = bs"
proof (induction bs rule: b64_sextets.induct)
  case (1 a b c bs)
  then have "a < 256" "b < 256" "c < 256" by simp_all
  with 1 show ?case by (simp add: octet_1 octet_2 octet_3)
next
  case (2 a b)
  then have "a < 256" "b < 256" by simp_all
  then have "(((a mod 4) * 16 + b div 16) mod 16) * 16 + ((b mod 16) * 4 + 0 div 64) div 4 = b"
    by (intro octet_2) simp_all
  with \<open>b < 256\<close> show ?case by (simp add: octet_1)
next
  case (3 a)
  have "a div 4 * 4 + ((a mod 4) * 16 + 0 div 16) div 16 = a" by (intro octet_1) simp
  then show ?case by simp
qed simp

lemma length_b64_sextets:
  "length (b64_sextets bs) =
     4 * (length bs div 3) + (if length bs mod 3 = 0 then 0 else length bs mod 3 + 1)"
proof (induction bs rule: b64_sextets.induct)
  case (1 a b c bs)
  have "length (a # b # c # bs) = length bs + 3" by simp
  then have "length (a # b # c # bs) div 3 = length bs div 3 + 1"
    "length (a # b # c # bs) mod 3 = length bs mod 3" by simp_all
  with 1 show ?case by simp
qed simp_all

lemma strip_padding_none:
  assumes "d = [] \<or> last d \<noteq> CHR ''=''"
  shows "strip_padding d = d"
proof -
  have "drop (length d - 2) d \<noteq> ''==''" if "2 \<le> length d"
  proof
    assume e: "drop (length d - 2) d = ''==''"
    have "d = take (length d - 2) d @ ''==''" by (metis append_take_drop_id e)
    then have "d \<noteq> [] \<and> last d = CHR ''=''" by (metis last_snoc append_assoc append_Cons append_Nil snoc_eq_iff_butlast)
    with assms show False by simp
  qed
  moreover have "drop (length d - 1) d \<noteq> ''=''" if "1 \<le> length d"
  proof
    assume e: "drop (length d - 1) d = ''=''"
    have "d = take (length d - 1) d @ ''=''" by (metis append_take_drop_id e)
    then have "d \<noteq> [] \<and> last d = CHR ''=''" by (metis last_snoc snoc_eq_iff_butlast)
    with assms show False by simp
  qed
  ultimately show ?thesis by (auto simp: strip_padding_def)
qed

lemma strip_padding_one:
  assumes "d = [] \<or> last d \<noteq> CHR ''=''"
  shows "strip_padding (d @ ''='') = d"
proof -
  have "drop (length d - 1) (d @ ''='') \<noteq> ''==''"
  proof (cases "d = []")
    case True then show ?thesis by simp
  next
    case False
    then have "drop (length d - 1) d = [last d]"
      by (metis append_butlast_last_id append_eq_conv_conj length_butlast)
    with False assms show ?thesis by simp
  qed
  then show ?thesis by (simp add: strip_padding_def)
qed

lemma strip_padding_two: "strip_padding (d @ ''=='') = d"
  by (simp add: strip_padding_def)

lemma last_b64_chars:
  assumes "\<forall>v\<in>set vs. v < 64"
  shows "map b64_char vs = [] \<or> last (map b64_char vs) \<noteq> CHR ''=''"
proof (cases "vs = []")
  case False
  then have "last vs \<in> set vs" by simp
  with assms have "last vs < 64" by blast
  then show ?thesis using False by (simp add: last_map b64_char_not_pad)
qed simp

lemma those_b64_val:
  "\<forall>v\<in>set vs. v < 64 \<Longrightarrow> those (map b64_val (map b64_char vs)) = Some vs"
  by (induction vs) (simp_all add: b64_val_char)

lemma filter_ws_b64:
  "\<forall>v\<in>set vs. v < 64 \<Longrightarrow>
   filter (\<lambda>c. \<not> ascii_whitespace c) (map b64_char vs @ replicate p (CHR ''='')) =
   map b64_char vs @ replicate p (CHR ''='')"
proof -
  assume "\<forall>v\<in>set vs. v < 64"
  then have "\<forall>c\<in>set (map b64_char vs). \<not> ascii_whitespace c"
    by (auto simp: b64_char_not_ws)
  moreover have "\<not> ascii_whitespace (CHR ''='')"
    by (simp add: ascii_whitespace_def)
  ultimately have "\<forall>c\<in>set (map b64_char vs @ replicate p (CHR ''='')). \<not> ascii_whitespace c"
    by auto
  then show ?thesis by (simp only: filter_True)
qed

lemma atob_btoa: "atob (btoa s) = Some s"
proof -
  define bs :: "nat list" where "bs = map of_char s"
  define vs where "vs = b64_sextets bs"
  define p where "p = (3 - length s mod 3) mod 3"
  define cs where "cs = map b64_char vs"
  have bs: "\<forall>b\<in>set bs. b < 256" by (auto simp: bs_def)
  then have vs: "\<forall>v\<in>set vs. v < 64" unfolding vs_def by (rule b64_sextets_bound)
  have enc: "btoa s = cs @ replicate p (CHR ''='')"
    by (simp add: btoa_def bs_def vs_def p_def cs_def)
  have len: "length cs = 4 * (length s div 3) + (if length s mod 3 = 0 then 0 else length s mod 3 + 1)"
    by (simp add: cs_def vs_def length_b64_sextets bs_def)
  have m3: "length s mod 3 = 0 \<or> length s mod 3 = 1 \<or> length s mod 3 = 2" by arith
  have lastc: "cs = [] \<or> last cs \<noteq> CHR ''=''" unfolding cs_def using vs by (rule last_b64_chars)
  have tot: "length (cs @ replicate p (CHR ''='')) mod 4 = 0"
    using m3 by (auto simp: len p_def)
  have strip: "strip_padding (cs @ replicate p (CHR ''='')) = cs"
  proof -
    from m3 consider "p = 0" | "p = 2" | "p = 1" by (auto simp: p_def)
    then show ?thesis
    proof cases
      case 1 then show ?thesis using lastc by (simp add: strip_padding_none)
    next
      case 2
      then have "replicate p (CHR ''='') = ''==''" by (simp add: numeral_2_eq_2)
      then show ?thesis by (simp add: strip_padding_two)
    next
      case 3
      then have "replicate p (CHR ''='') = ''=''" by simp
      then show ?thesis using lastc by (simp add: strip_padding_one)
    qed
  qed
  have l1: "length cs mod 4 \<noteq> 1" using m3 by (auto simp: len)
  have dec: "map char_of (b64_octets vs) = s"
    unfolding vs_def using bs by (simp add: b64_octets_sextets bs_def comp_def)
  have "atob (cs @ replicate p (CHR ''='')) = Some s"
    unfolding atob_def filter_ws_b64 [OF vs, folded cs_def] Let_def
    using tot strip l1 dec those_b64_val [OF vs] by (simp add: cs_def)
  then show ?thesis by (simp add: enc)
qed

subsection \<open>Samples, bytes and frames\<close>

lemma int16_bytes_inverse: "int16_of_bytes (ucast w) (ucast (drop_bit 8 w)) = w"
  unfolding int16_of_bytes_def
  by (rule bit_word_eqI) (auto simp: bit_simps)

lemma byte_char_inverse: "of_nat (of_char (char_of (unat (b::uint8)))) = b"
proof -
  have "unat b < 256" using unsigned_less [of b, where ?'a = nat] by simp
  then show ?thesis by (simp add: of_char_of)
qed

lemma int16s_of_bytes_inverse: "int16s_of_bytes (bytes_of_int16s ws) = ws"
  by (induction ws) (simp_all add: bytes_of_int16s_def int16_bytes_def int16_bytes_inverse)

lemma length_bytes_of_int16s: "length (bytes_of_int16s ws) = 2 * length ws"
  by (induction ws) (simp_all add: bytes_of_int16s_def int16_bytes_def)

lemma bytes_chars_inverse:
  "map (\<lambda>c. of_nat (of_char c)) (map (\<lambda>b. char_of (unat b)) bytes) = (bytes :: uint8 list)"
  by (induction bytes) (simp_all only: list.map byte_char_inverse)

lemma decode_createPcmBlob:
  "decode (data (createPcmBlob samples)) = Inr (bytes_of_int16s (pcm_samples samples))"
  by (simp add: decode_def createPcmBlob_def Let_def atob_btoa bytes_chars_inverse
        del: map_map)

lemma decodeAudioData_mono:
  assumes "ws \<noteq> []" "rate \<noteq> 0"
  shows "decodeAudioData (bytes_of_int16s ws) rate 1 =
           Inr \<lparr>sampleRate = rate, frames = length ws,
                channels = [map (\<lambda>w. real_of_int (sint w) / 32768) ws]\<rparr>"
proof -
  have "map (\<lambda>i. real_of_int (sint (ws ! i)) / 32768) [0..<length ws] =
        map (\<lambda>w. real_of_int (sint w) / 32768) ws"
    by (rule nth_equalityI) simp_all
  with assms show ?thesis
    by (simp add: decodeAudioData_def length_bytes_of_int16s int16s_of_bytes_inverse)
qed

lemma pcm_round_trip_eq:
  assumes "samples \<noteq> []"
  shows "pcm_round_trip samples =
           Inr \<lparr>sampleRate = 24000, frames = length samples,
                channels = [map (\<lambda>s. real_of_int (sint (pcm_sample s)) / 32768) samples]\<rparr>"
proof -
  have "pcm_samples samples \<noteq> []" using assms by (simp add: pcm_samples_def)
  then have "decodeAudioData (bytes_of_int16s (pcm_samples samples)) 24000 1 =
      Inr \<lparr>sampleRate = 24000, frames = length (pcm_samples samples),
           channels = [map (\<lambda>w. real_of_int (sint w) / 32768) (pcm_samples samples)]\<rparr>"
    by (rule decodeAudioData_mono) simp
  then show ?thesis
    by (simp add: pcm_round_trip_def decode_createPcmBlob pcm_samples_def comp_def)
qed

lemma sint_pcm_sample:
  "sint (pcm_sample s) = (js_truncate (s * 32768) + 32768) mod 65536 - 32768"
  by (simp add: pcm_sample_def ToInt16_def int_word_sint)

lemma js_truncate_close: "\<bar>real_of_int (js_truncate x) - x\<bar> < 1"
proof (cases "0 \<le> x")
  case True
  then have "js_truncate x = \<lfloor>x\<rfloor>" by (simp add: js_truncate_def)
  then show ?thesis by linarith
next
  case False
  then have "js_truncate x = \<lceil>x\<rceil>" by (simp add: js_truncate_def)
  then show ?thesis by linarith
qed

lemma js_truncate_range:
  assumes "- 32768 \<le> x" "x < 32768"
  shows "- 32768 \<le> js_truncate x" "js_truncate x \<le> 32767"
  using assms unfolding js_truncate_def by (auto simp: le_floor_iff floor_less_iff ceiling_le_iff le_ceiling_iff) 

lemma sint_pcm_sample_in_range:
  assumes "- 1 \<le> s" "s < 1"
  shows "sint (pcm_sample s) = js_truncate (s * 32768)"
proof -
  have "- 32768 \<le> s * 32768" "s * 32768 < 32768" using assms by simp_all
  then have "- 32768 \<le> js_truncate (s * 32768)" "js_truncate (s * 32768) \<le> 32767"
    by (rule js_truncate_range)+
  then show ?thesis by (simp add: sint_pcm_sample)
qed

lemma pcm_sample_error:
  assumes "- 1 \<le> s" "s < 1"
  shows "\<bar>real_of_int (sint (pcm_sample s)) / 32768 - s\<bar> < 1 / 32768"
proof -
  have "\<bar>real_of_int (js_truncate (s * 32768)) - s * 32768\<bar> < 1" by (rule js_truncate_close)
  then have "\<bar>(real_of_int (js_truncate (s * 32768)) - s * 32768) / 32768\<bar> < 1 / 32768"
    by simp
  then show ?thesis by (simp add: sint_pcm_sample_in_range [OF assms] diff_divide_distrib)
qed

lemma js_truncate_round:
  "\<bar>js_truncate x - round x\<bar> \<le> 1"
proof (cases "0 \<le> x")
  case True
  then have "js_truncate x = \<lfloor>x\<rfloor>" by (simp add: js_truncate_def)
  then show ?thesis unfolding round_def by linarith
next
  case False
  then have "js_truncate x = \<lceil>x\<rceil>" by (simp add: js_truncate_def)
  then show ?thesis unfolding round_def by linarith
qed

lemma pcm_sample_near_spec:
  assumes "- 1 \<le> s" "s < 1"
  shows "\<bar>sint (pcm_sample s) - spec_pcm_sample s\<bar> \<le> 1"
proof -
  have r: "- 32768 \<le> s * 32768" "s * 32768 < 32768" using assms by simp_all
  then have t: "- 32768 \<le> js_truncate (s * 32768)" "js_truncate (s * 32768) \<le> 32767"
    by (rule js_truncate_range)+
  have "\<bar>js_truncate (s * 32768) - round (s * 32768)\<bar> \<le> 1" by (rule js_truncate_round)
  with t have "\<bar>js_truncate (s * 32768) - max (- 32768) (min 32767 (round (s * 32768)))\<bar> \<le> 1"
    by linarith
  then show ?thesis by (simp add: sint_pcm_sample_in_range [OF assms] spec_pcm_sample_def)
qed

subsection \<open>The sample conversion\<close>

text \<open>
  Claim C3, as amended. The store \<^verbatim>\<open>int16[i] = data[i] * 32768\<close> truncates the
  product towards zero and reduces it modulo \<open>2^16\<close> into the signed 16-bit range:
  it neither rounds to nearest nor clips. For a sample \<open>s\<close> with \<open>-1 \<le> s < 1\<close>
  nothing wraps: the encoded integer is the truncated product, it is less than 1 away
  from \<open>s * 32768\<close>, and at most 1 away from the rounded and clipped value of the
  specification.
\<close>

theorem pcm_sample_truncates_and_wraps:
  "sint (pcm_sample s) = (js_truncate (s * 32768) + 32768) mod 65536 - 32768 \<and>
   (- 1 \<le> s \<and> s < 1 \<longrightarrow>
      sint (pcm_sample s) = js_truncate (s * 32768) \<and>
      \<bar>real_of_int (sint (pcm_sample s)) - s * 32768\<bar> < 1 \<and>
      \<bar>sint (pcm_sample s) - spec_pcm_sample s\<bar> \<le> 1)"
proof (intro conjI impI)
  show "sint (pcm_sample s) = (js_truncate (s * 32768) + 32768) mod 65536 - 32768"
    by (rule sint_pcm_sample)
next
  assume a: "- 1 \<le> s \<and> s < 1"
  then show "sint (pcm_sample s) = js_truncate (s * 32768)"
    by (simp add: sint_pcm_sample_in_range)
  then show "\<bar>real_of_int (sint (pcm_sample s)) - s * 32768\<bar> < 1"
    by (simp add: js_truncate_close)
  from a show "\<bar>sint (pcm_sample s) - spec_pcm_sample s\<bar> \<le> 1"
    by (simp add: pcm_sample_near_spec)
qed

text \<open>The theorem at the sample \<open>-7/131072\<close>, whose product is \<open>-1.75\<close>.\<close>

theorem pcm_sample_truncates_and_wraps_witness:
  "(- 1 \<le> (- 7 / 131072 :: real) \<and> (- 7 / 131072 :: real) < 1) \<and>
   sint (pcm_sample (- 7 / 131072)) = - 1 \<and>
   js_truncate (- 7 / 131072 * 32768) = - 1 \<and>
   \<bar>real_of_int (sint (pcm_sample (- 7 / 131072))) - (- 7 / 131072) * 32768\<bar> < 1"
  using pcm_sample_truncates_and_wraps [of "- 7 / 131072"]
  by (simp add: js_truncate_def)

text \<open>
  Claim C3 as stated fails: the sample \<open>1\<close> lies in \<open>[-1, 1]\<close> and is encoded as
  \<open>-32768\<close>, the sample \<open>3/2\<close> as \<open>-16384\<close> (both wrap to the opposite sign,
  where clipping gives \<open>32767\<close>), and the sample \<open>7/131072\<close>, whose product is
  \<open>1.75\<close>, is encoded as \<open>1\<close> where rounding gives \<open>2\<close>.
\<close>

theorem pcm_sample_counterexample:
  "sint (pcm_sample 1) = - 32768 \<and> spec_pcm_sample 1 = 32767 \<and>
   sint (pcm_sample (3 / 2)) = - 16384 \<and> spec_pcm_sample (3 / 2) = 32767 \<and>
   sint (pcm_sample (7 / 131072)) = 1 \<and> spec_pcm_sample (7 / 131072) = 2"
  by (simp add: sint_pcm_sample js_truncate_def spec_pcm_sample_def round_def)

subsection \<open>Encoding a frame and decoding it again\<close>

text \<open>
  Claim C8, as amended. For every non-empty sample array with each sample \<open>s\<close> in
  \<open>-1 \<le> s < 1\<close>, encoding it with \<^verbatim>\<open>createPcmBlob\<close> and decoding the frame
  with \<^verbatim>\<open>decode\<close> and \<^verbatim>\<open>decodeAudioData\<close> at one channel succeeds and gives
  one channel of the same length, each sample less than \<open>1/32768\<close> away from the
  original.
\<close>

theorem pcm_round_trip_error:
  assumes "samples \<noteq> []" and "\<forall>s\<in>set samples. - 1 \<le> s \<and> s < 1"
  shows "\<exists>decoded.
           pcm_round_trip samples =
             Inr \<lparr>sampleRate = 24000, frames = length samples, channels = [decoded]\<rparr> \<and>
           length decoded = length samples \<and>
           (\<forall>i<length samples. \<bar>decoded ! i - samples ! i\<bar> < 1 / 32768)"
proof (intro exI conjI allI impI)
  show "pcm_round_trip samples =
          Inr \<lparr>sampleRate = 24000, frames = length samples,
               channels = [map (\<lambda>s. real_of_int (sint (pcm_sample s)) / 32768) samples]\<rparr>"
    using assms(1) by (rule pcm_round_trip_eq)
  show "length (map (\<lambda>s. real_of_int (sint (pcm_sample s)) / 32768) samples) = length samples"
    by simp
  fix i
  assume i: "i < length samples"
  then have "samples ! i \<in> set samples" by simp
  with assms(2) have "- 1 \<le> samples ! i" "samples ! i < 1" by auto
  then have "\<bar>real_of_int (sint (pcm_sample (samples ! i))) / 32768 - samples ! i\<bar> < 1 / 32768"
    by (rule pcm_sample_error)
  with i show "\<bar>map (\<lambda>s. real_of_int (sint (pcm_sample s)) / 32768) samples ! i - samples ! i\<bar>
                 < 1 / 32768"
    by simp
qed

text \<open>The theorem at the three samples \<open>1/2\<close>, \<open>-1\<close> and \<open>7/131072\<close>.\<close>

theorem pcm_round_trip_error_witness:
  "[1 / 2, - 1, 7 / 131072 :: real] \<noteq> [] \<and>
   (- 1 \<le> (1 / 2 :: real) \<and> (1 / 2 :: real) < 1) \<and>
   (- 1 \<le> (- 1 :: real) \<and> (- 1 :: real) < 1) \<and>
   (- 1 \<le> (7 / 131072 :: real) \<and> (7 / 131072 :: real) < 1) \<and>
   (\<exists>decoded.
      pcm_round_trip [1 / 2, - 1, 7 / 131072] =
        Inr \<lparr>sampleRate = 24000, frames = 3, channels = [decoded]\<rparr> \<and>
      length decoded = 3 \<and>
      \<bar>decoded ! 0 - 1 / 2\<bar> < 1 / 32768 \<and>
      \<bar>decoded ! 1 - (- 1)\<bar> < 1 / 32768 \<and>
      \<bar>decoded ! 2 - 7 / 131072\<bar> < 1 / 32768)"
proof -
  have h1: "[1 / 2, - 1, 7 / 131072 :: real] \<noteq> []" by simp
  have h2: "\<forall>s\<in>set [1 / 2, - 1, 7 / 131072 :: real]. - 1 \<le> s \<and> s < 1" by simp
  from pcm_round_trip_error [OF h1 h2] obtain decoded where
    d: "pcm_round_trip [1 / 2, - 1, 7 / 131072] =
          Inr \<lparr>sampleRate = 24000, frames = length [1 / 2, - 1, 7 / 131072 :: real],
               channels = [decoded]\<rparr>"
      "length decoded = length [1 / 2, - 1, 7 / 131072 :: real]"
      "\<forall>i<length [1 / 2, - 1, 7 / 131072 :: real].
          \<bar>decoded ! i - [1 / 2, - 1, 7 / 131072] ! i\<bar> < 1 / 32768"
    by blast
  have "\<bar>decoded ! 0 - 1 / 2\<bar> < 1 / 32768"
    using d(3) [THEN spec, of 0] by simp
  moreover have "\<bar>decoded ! 1 - (- 1)\<bar> < 1 / 32768"
    using d(3) [THEN spec, of 1] by simp
  moreover have "\<bar>decoded ! 2 - 7 / 131072\<bar> < 1 / 32768"
    using d(3) [THEN spec, of 2] by simp
  ultimately have "\<exists>decoded.
      pcm_round_trip [1 / 2, - 1, 7 / 131072] =
        Inr \<lparr>sampleRate = 24000, frames = 3, channels = [decoded]\<rparr> \<and>
      length decoded = 3 \<and>
      \<bar>decoded ! 0 - 1 / 2\<bar> < 1 / 32768 \<and>
      \<bar>decoded ! 1 - (- 1)\<bar> < 1 / 32768 \<and>
      \<bar>decoded ! 2 - 7 / 131072\<bar> < 1 / 32768"
    using d(1,2) by auto
  then show ?thesis by simp
qed

text \<open>
  Claim C8 as stated fails at the array holding the single sample \<open>1\<close>, which
  comes back as \<open>-1\<close>, and at the empty array, for which the playback device
  refuses to allocate a buffer.
\<close>

theorem pcm_round_trip_counterexample:
  "pcm_round_trip [1] = Inr \<lparr>sampleRate = 24000, frames = 1, channels = [[- 1]]\<rparr> \<and>
   \<not> \<bar>(- 1 :: real) - 1\<bar> \<le> 1 / 32768 \<and>
   pcm_round_trip [] = Inl NotSupportedError"
proof -
  have "pcm_round_trip [1] = Inr \<lparr>sampleRate = 24000, frames = 1, channels = [[- 1]]\<rparr>"
    by (simp add: pcm_round_trip_eq sint_pcm_sample js_truncate_def)
  moreover have "pcm_round_trip [] = Inl NotSupportedError"
    by (simp add: pcm_round_trip_def decode_createPcmBlob pcm_samples_def bytes_of_int16s_def
        decodeAudioData_def)
  ultimately show ?thesis by simp
qed
section \<open>Properties of the playback schedule\<close>

lemma duration_nonneg: "0 \<le> duration b"
  by (simp add: duration_def)

lemma onmessage_cases:
  "onmessage t d c p = p \<or>
   (\<exists>b. onmessage t d c p =
      p\<lparr>started := started p @ [\<lparr>when = nextStartTime p, clock = t, dur = duration b\<rparr>],
        nextStartTime := max t (nextStartTime p) + duration b\<rparr>)"
  by (auto simp: onmessage_def split: option.splits sum.splits)

lemma receive_snoc: "receive (ms @ [(t, d)]) p = onmessage t d True (receive ms p)"
  by (simp add: receive_def)



lemma onmessage_ends_before_cursor:
  assumes "ends_before_cursor p"
  shows "ends_before_cursor (onmessage t d c p)"
proof -
  from onmessage_cases [of t d c p] show ?thesis
  proof
    assume "onmessage t d c p = p"
    with assms show ?thesis by simp
  next
    assume "\<exists>b. onmessage t d c p =
      p\<lparr>started := started p @ [\<lparr>when = nextStartTime p, clock = t, dur = duration b\<rparr>],
        nextStartTime := max t (nextStartTime p) + duration b\<rparr>"
    then obtain b where b: "onmessage t d c p =
      p\<lparr>started := started p @ [\<lparr>when = nextStartTime p, clock = t, dur = duration b\<rparr>],
        nextStartTime := max t (nextStartTime p) + duration b\<rparr>" by blast
    have "0 \<le> duration b" by (rule duration_nonneg)
    with assms show ?thesis
      unfolding b ends_before_cursor_def playback_start_def by fastforce
  qed
qed

lemma receive_ends_before_cursor:
  "started p = [] \<Longrightarrow> ends_before_cursor (receive ms p)"
proof (induction ms rule: rev_induct)
  case Nil
  then show ?case by (simp add: receive_def ends_before_cursor_def)
next
  case (snoc m ms)
  obtain t d where m: "m = (t, d)" by (cases m)
  from snoc show ?case unfolding m receive_snoc by (simp add: onmessage_ends_before_cursor)
qed

lemma onmessage_monotone: "nextStartTime p \<le> nextStartTime (onmessage t d c p)"
proof -
  from onmessage_cases [of t d c p] show ?thesis
  proof
    assume "onmessage t d c p = p"
    then show ?thesis by simp
  next
    assume "\<exists>b. onmessage t d c p =
      p\<lparr>started := started p @ [\<lparr>when = nextStartTime p, clock = t, dur = duration b\<rparr>],
        nextStartTime := max t (nextStartTime p) + duration b\<rparr>"
    then obtain b where b: "onmessage t d c p =
      p\<lparr>started := started p @ [\<lparr>when = nextStartTime p, clock = t, dur = duration b\<rparr>],
        nextStartTime := max t (nextStartTime p) + duration b\<rparr>" by blast
    have "0 \<le> duration b" by (rule duration_nonneg)
    then show ?thesis by (simp add: b)
  qed
qed

lemma onmessage_frame:
  assumes "d \<noteq> []" "decode d = Inr bytes" "decodeAudioData bytes 24000 1 = Inr b"
  shows "onmessage t (Some d) True p =
      p\<lparr>started := started p @ [\<lparr>when = nextStartTime p, clock = t, dur = duration b\<rparr>],
        nextStartTime := max t (nextStartTime p) + duration b\<rparr>"
  using assms by (simp add: onmessage_def del: One_nat_def)

text \<open>
  Claim C5. Let the inbound messages \<open>ms\<close> have been processed in receipt order in
  a session that started with nothing scheduled. Whatever message comes next, the
  cursor does not decrease. When the next message carries a frame that decodes to a
  buffer and arrives at device clock \<open>t\<close>, the buffer is scheduled: the time passed
  to the device is the cursor, so its playback starts at \<open>max t nextStartTime\<close>;
  the cursor is advanced to that start plus the duration of the buffer; and every
  buffer scheduled before has ended by then, so no two overlap.
\<close>

theorem playback_schedule:
  assumes "started p = []"
    and "d \<noteq> []" and "decode d = Inr bytes" and "decodeAudioData bytes 24000 1 = Inr b"
  shows "nextStartTime (receive ms p) \<le> nextStartTime (receive (ms @ [m]) p) \<and>
    (\<exists>e. started (receive (ms @ [(t, Some d)]) p) = started (receive ms p) @ [e] \<and>
         when e = nextStartTime (receive ms p) \<and> clock e = t \<and> dur e = duration b \<and>
         playback_start e = max t (nextStartTime (receive ms p)) \<and>
         nextStartTime (receive (ms @ [(t, Some d)]) p) = playback_start e + dur e \<and>
         (\<forall>e0\<in>set (started (receive ms p)).
             playback_start e0 + dur e0 \<le> playback_start e \<and>
             when e0 + dur e0 \<le> when e))"
proof
  obtain t' d' where m: "m = (t', d')" by (cases m)
  show "nextStartTime (receive ms p) \<le> nextStartTime (receive (ms @ [m]) p)"
    unfolding m receive_snoc by (rule onmessage_monotone)
next
  define q where "q = receive ms p"
  define e where "e = \<lparr>when = nextStartTime q, clock = t, dur = duration b\<rparr>"
  have inv: "ends_before_cursor q"
    unfolding q_def using assms(1) by (rule receive_ends_before_cursor)
  have q': "receive (ms @ [(t, Some d)]) p =
      q\<lparr>started := started q @ [e], nextStartTime := max t (nextStartTime q) + duration b\<rparr>"
    unfolding receive_snoc q_def [symmetric] e_def using assms(2-4) by (rule onmessage_frame)
  have older: "playback_start e0 + dur e0 \<le> playback_start e \<and> when e0 + dur e0 \<le> when e"
    if "e0 \<in> set (started q)" for e0
  proof -
    from inv that have "playback_start e0 + dur e0 \<le> nextStartTime q"
      by (simp add: ends_before_cursor_def)
    moreover have "when e0 \<le> playback_start e0" by (simp add: playback_start_def)
    moreover have "when e = nextStartTime q" "nextStartTime q \<le> playback_start e"
      by (simp_all add: e_def playback_start_def)
    ultimately show ?thesis by linarith
  qed
  have "started (receive (ms @ [(t, Some d)]) p) = started q @ [e] \<and>
         when e = nextStartTime q \<and> clock e = t \<and> dur e = duration b \<and>
         playback_start e = max t (nextStartTime q) \<and>
         nextStartTime (receive (ms @ [(t, Some d)]) p) = playback_start e + dur e \<and>
         (\<forall>e0\<in>set (started q).
             playback_start e0 + dur e0 \<le> playback_start e \<and> when e0 + dur e0 \<le> when e)"
    using older by (simp add: q' e_def playback_start_def)
  then show "\<exists>e. started (receive (ms @ [(t, Some d)]) p) = started (receive ms p) @ [e] \<and>
         when e = nextStartTime (receive ms p) \<and> clock e = t \<and> dur e = duration b \<and>
         playback_start e = max t (nextStartTime (receive ms p)) \<and>
         nextStartTime (receive (ms @ [(t, Some d)]) p) = playback_start e + dur e \<and>
         (\<forall>e0\<in>set (started (receive ms p)).
             playback_start e0 + dur e0 \<le> playback_start e \<and>
             when e0 + dur e0 \<le> when e)"
    unfolding q_def by (rule exI)
qed

lemma decode_two_samples: "decode ''AIAAgA=='' = Inr [0, 128, 0, 128]"
  by (simp add: decode_def atob_def ascii_whitespace_def strip_padding_def b64_val_def Let_def)

lemma decode_one_sample: "decode ''AIA='' = Inr [0, 128]"
  by (simp add: decode_def atob_def ascii_whitespace_def strip_padding_def b64_val_def Let_def)

lemma decodeAudioData_two_samples:
  "decodeAudioData [0, 128, 0, 128] 24000 1 = Inr \<lparr>sampleRate = 24000, frames = 2, channels = [[- 1, - 1]]\<rparr>"
  by (simp add: decodeAudioData_def int16_of_bytes_def Let_def upt_rec numeral_2_eq_2 [symmetric])

lemma decodeAudioData_one_sample:
  "decodeAudioData [0, 128] 24000 1 = Inr \<lparr>sampleRate = 24000, frames = 1, channels = [[- 1]]\<rparr>"
  by (simp add: decodeAudioData_def int16_of_bytes_def Let_def upt_rec)

text \<open>
  The theorem at two frames of two samples and one sample: the first arrives at clock
  5 with the cursor at 0, the second at clock 6, after the first has ended.
\<close>

theorem playback_schedule_witness:
  "started initial_playback = [] \<and> ''AIA='' \<noteq> [] \<and>
   decode ''AIA='' = Inr [0, 128] \<and>
   decodeAudioData [0, 128] 24000 1 =
     Inr \<lparr>sampleRate = 24000, frames = 1, channels = [[- 1]]\<rparr> \<and>
   nextStartTime (receive [(5, Some ''AIAAgA=='')] initial_playback) = 5 + 2 / 24000 \<and>
   receive ([(5, Some ''AIAAgA=='')] @ [(6, Some ''AIA='')]) initial_playback =
     \<lparr>nextStartTime = 6 + 1 / 24000,
      started = [\<lparr>when = 0, clock = 5, dur = 2 / 24000\<rparr>,
                 \<lparr>when = 5 + 2 / 24000, clock = 6, dur = 1 / 24000\<rparr>]\<rparr>"
proof -
  have h: "started initial_playback = []" by (simp add: initial_playback_def)
  have n: "''AIA='' \<noteq> []" by simp
  show ?thesis
    using playback_schedule [OF h n decode_one_sample decodeAudioData_one_sample,
        of "[(5, Some ''AIAAgA=='')]" "(6, Some ''AIA='')" 6]
    by (simp add: initial_playback_def receive_def onmessage_def decode_two_samples
        decode_one_sample decodeAudioData_two_samples decodeAudioData_one_sample duration_def
        del: One_nat_def)
qed
section \<open>Properties of the citation sources\<close>

lemma collect_grounding_fold:
  "collect_grounding c m =
     fold (\<lambda>(u, t). map_set u t)
       (concat (map (\<lambda>chunkInfo. case web chunkInfo of None \<Rightarrow> [] | Some w \<Rightarrow> [(uri w, title w)])
                 (groundingChunks c))) m"
proof -
  have "fold (\<lambda>chunkInfo m. case web chunkInfo of None \<Rightarrow> m | Some w \<Rightarrow> map_set (uri w) (title w) m) gs m =
        fold (\<lambda>(u, t). map_set u t)
          (concat (map (\<lambda>chunkInfo. case web chunkInfo of None \<Rightarrow> [] | Some w \<Rightarrow> [(uri w, title w)]) gs)) m"
    for gs
    by (induction gs arbitrary: m) (simp_all split: option.splits)
  then show ?thesis by (simp add: collect_grounding_def)
qed

lemma fold_collect_grounding:
  "fold collect_grounding cs m = fold (\<lambda>(u, t). map_set u t) (citations cs) m"
  by (induction cs arbitrary: m) (simp_all add: citations_def collect_grounding_fold)

lemma grounding_of_citations:
  "grounding_of cs = fold (\<lambda>(u, t). map_set u t) (citations cs) []"
  by (simp add: grounding_of_def fold_collect_grounding)

lemma map_of_map_set: "map_of (map_set k v m) = (map_of m)(k \<mapsto> v)"
  by (induction m) (auto simp: fun_eq_iff)

lemma keys_map_set: "set (map fst (map_set k v m)) = insert k (set (map fst m))"
proof (induction m)
  case Nil
  then show ?case by simp
next
  case (Cons p m)
  obtain k' v' where p: "p = (k', v')" by (cases p)
  show ?case
  proof (cases "k' = k")
    case True
    then show ?thesis by (simp add: p)
  next
    case False
    then have "set (map fst (map_set k v (p # m))) = insert k' (set (map fst (map_set k v m)))"
      by (simp add: p)
    also have "\<dots> = insert k' (insert k (set (map fst m)))" by (simp only: Cons.IH)
    finally show ?thesis by (simp add: p insert_commute)
  qed
qed

lemma distinct_map_set: "distinct (map fst m) \<Longrightarrow> distinct (map fst (map_set k v m))"
proof (induction m)
  case Nil
  then show ?case by simp
next
  case (Cons p m)
  obtain k' v' where p: "p = (k', v')" by (cases p)
  from Cons have "k' \<notin> set (map fst m)" "distinct (map fst (map_set k v m))"
    by (simp_all add: p)
  then show ?case using Cons.prems keys_map_set [of k v m] by (auto simp: p)
qed

lemma distinct_fold_map_set:
  "distinct (map fst m) \<Longrightarrow> distinct (map fst (fold (\<lambda>(u, t). map_set u t) kvs m))"
  by (induction kvs arbitrary: m) (auto simp: distinct_map_set)

lemma map_of_fold_map_set:
  "map_of (fold (\<lambda>(u, t). map_set u t) kvs m) k =
     (if filter (\<lambda>e. fst e = k) kvs = [] then map_of m k
      else Some (snd (last (filter (\<lambda>e. fst e = k) kvs))))"
proof (induction kvs arbitrary: m)
  case Nil
  then show ?case by simp
next
  case (Cons p kvs)
  obtain u t where p: "p = (u, t)" by (cases p)
  show ?case unfolding p by (simp add: Cons.IH map_of_map_set)
qed

lemma filter_key_single:
  "distinct (map fst l) \<Longrightarrow> map_of l k = Some v \<Longrightarrow> filter (\<lambda>e. fst e = k) l = [(k, v)]"
proof (induction l)
  case Nil
  then show ?case by simp
next
  case (Cons p l)
  obtain k' v' where p: "p = (k', v')" by (cases p)
  show ?case
  proof (cases "k' = k")
    case True
    with Cons.prems have "v' = v" "k \<notin> fst ` set l" by (simp_all add: p)
    then have "filter (\<lambda>e. fst e = k) l = []" by (auto simp: filter_empty_conv)
    with True \<open>v' = v\<close> show ?thesis by (simp add: p)
  next
    case False
    with Cons show ?thesis by (simp add: p)
  qed
qed

lemma grounding_entry:
  assumes "(u, t) \<in> set (citations cs)"
  shows "filter (\<lambda>e. fst e = u) (grounding_of cs) =
           [(u, snd (last (filter (\<lambda>e. fst e = u) (citations cs))))]"
proof -
  from assms have ne: "filter (\<lambda>e. fst e = u) (citations cs) \<noteq> []"
    by (force simp: filter_empty_conv)
  have "distinct (map fst (grounding_of cs))"
    by (simp add: grounding_of_citations distinct_fold_map_set)
  moreover have "map_of (grounding_of cs) u = Some (snd (last (filter (\<lambda>e. fst e = u) (citations cs))))"
    using ne by (simp add: grounding_of_citations map_of_fold_map_set)
  ultimately show ?thesis by (rule filter_key_single)
qed

lemma grounding_nonempty:
  assumes "(u, t) \<in> set (citations cs)"
  shows "grounding_of cs \<noteq> []"
proof
  assume "grounding_of cs = []"
  then have "filter (\<lambda>e. fst e = u) (grounding_of cs) = []" by simp
  with grounding_entry [OF assms] show False by simp
qed

text \<open>
  Claim C4, as amended. For every stream and every URI cited by some fragment, the
  sources collected hold exactly one entry for that URI, and its title is the one of
  the last citation of that URI in arrival order. When the stream ends normally, the
  fragment yielded after the texts is the sources block rendered from the collected
  entries; when it fails, the error block is yielded in its place.
\<close>

theorem citation_dedup_last_title:
  assumes "(u, t) \<in> set (citations (chunks r))"
  shows "filter (\<lambda>e. fst e = u) (grounding_of (chunks r)) =
           [(u, snd (last (filter (\<lambda>e. fst e = u) (citations (chunks r)))))] \<and>
         (failure r = None \<longrightarrow>
            stream_response enc r =
              concat (map chunk_yield (chunks r)) @ [sourcesHtml enc (grounding_of (chunks r))]) \<and>
         (failure r = Some err \<longrightarrow>
            stream_response enc r = concat (map chunk_yield (chunks r)) @ [error_block err])"
  using grounding_entry [OF assms] grounding_nonempty [OF assms]
  by (simp add: stream_response_def Let_def)

text \<open>The theorem at two fragments citing one URI with the titles First and Second.\<close>

theorem citation_dedup_last_title_witness:
  "(''https://x.test'', Some ''First'') \<in> set (citations (chunks two_titles)) \<and>
   failure two_titles = None \<and>
   filter (\<lambda>e. fst e = ''https://x.test'') (grounding_of (chunks two_titles)) =
     [(''https://x.test'', Some ''Second'')] \<and>
   stream_response (\<lambda>u. u) two_titles =
     [''a'', ''b'', sourcesHtml (\<lambda>u. u) [(''https://x.test'', Some ''Second'')]]"
proof -
  have h1: "(''https://x.test'', Some ''First'') \<in> set (citations (chunks two_titles))"
    by (simp add: two_titles_def citations_def)
  have h2: "failure two_titles = None" by (simp add: two_titles_def)
  have c: "concat (map chunk_yield (chunks two_titles)) = [''a'', ''b'']"
    by (simp add: two_titles_def chunk_yield_def truthy_def)
  have g: "grounding_of (chunks two_titles) = [(''https://x.test'', Some ''Second'')]"
    by (simp add: two_titles_def grounding_of_def collect_grounding_def)
  show ?thesis
    using citation_dedup_last_title [OF h1, of "\<lambda>u. u" OtherValue] h1 h2
    by (simp add: c g)
qed

text \<open>
  Claim C4 as stated fails: for these two fragments the sources block lists the URI
  once, with the title seen last, Second, not the title seen first; and when the same
  stream fails after the two fragments, no sources block is yielded at all.
\<close>

theorem citation_first_title_counterexample:
  \<open>stream_response (\<lambda>u. u) two_titles =
     [''a'', ''b'',
      ''<div class="llm-container mt-4 border-t pt-2"><h3 class="llm-title text-base">Sources</h3><ul class="list-disc list-inside"><li class="llm-text text-sm ml-2"><a href="https://x.test" target="_blank" rel="noopener noreferrer" class="text-blue-600 hover:underline">Second</a></li></ul></div>''] \<and>
   stream_response (\<lambda>u. u) (two_titles\<lparr>failure := Some OtherValue\<rparr>) =
     [''a'', ''b'', error_block OtherValue]\<close>
  by (simp add: stream_response_def two_titles_def chunk_yield_def truthy_def grounding_of_def
      collect_grounding_def sourcesHtml_def source_item_def safeTitle_def replace_all_def)

section \<open>Properties of the application component\<close>

lemma handleInteraction_standard:
  "standard_interaction d \<Longrightarrow> handleInteraction e d sys = standard_app_logic e d sys"
  by (auto simp: handleInteraction_def standard_interaction_def)

lemma cache_internalHandleLlmRequest:
  "appContentCache (app (internalHandleLlmRequest e h m p sys)) = appContentCache (app sys)"
  by (simp add: internalHandleLlmRequest_def)

lemma cache_resume: "appContentCache (app (resume k sys)) = appContentCache (app sys)"
  by (simp add: resume_def Let_def split: list.splits stream_end.splits)

lemma cache_standard_app_logic:
  "appContentCache (app (standard_app_logic e d sys)) = appContentCache (app sys)"
  by (simp add: standard_app_logic_def Let_def cache_internalHandleLlmRequest)

lemma cache_handleInteraction:
  "appContentCache (app (handleInteraction e d sys)) = appContentCache (app sys)"
  by (simp add: handleInteraction_def handleCloseAppView_def cache_standard_app_logic)

lemma cache_handleAppOpen:
  "appContentCache (app (handleAppOpen e a sys)) = appContentCache (app sys)"
  by (simp add: handleAppOpen_def Let_def cache_internalHandleLlmRequest)

lemma cache_flow_apply: "appContentCache (flow_apply w s) = appContentCache s"
  by (cases w) simp_all

lemma cache_step:
  "ev \<noteq> Render \<Longrightarrow> appContentCache (app (step e ev sys)) = appContentCache (app sys)"
  by (cases ev)
     (simp_all add: cache_handleAppOpen cache_handleInteraction cache_resume cache_flow_apply
        handleCloseAppView_def)

lemma cache_effect_writes:
  "appContentCache (cache_effect s) = appContentCache s \<or>
   (\<not> isLoading s \<and> llmContent s \<noteq> [] \<and> currentAppPath s \<noteq> [] \<and>
    appContentCache (cache_effect s) =
      (appContentCache s)(join ''__'' (currentAppPath s) \<mapsto> llmContent s))"
  by (simp add: cache_effect_def Let_def)

lemma cache_effect_nonempty:
  assumes "\<forall>k. appContentCache s k \<noteq> Some []"
  shows "appContentCache (cache_effect s) k \<noteq> Some []"
  using cache_effect_writes [of s] assms by (auto split: if_splits)

lemma step_nonempty:
  assumes "\<forall>k. appContentCache (app sys) k \<noteq> Some []"
  shows "appContentCache (app (step e ev sys)) k \<noteq> Some []"
proof (cases "ev = Render")
  case True
  with assms show ?thesis by (simp add: cache_effect_nonempty)
next
  case False
  with assms show ?thesis by (simp add: cache_step)
qed

lemma run_snoc: "run e (evs @ [ev]) sys = step e ev (run e evs sys)"
  by (simp add: run_def)

lemma run_append: "run e (evs @ evs') sys = run e evs' (run e evs sys)"
  by (simp add: run_def)

lemma run_Cons: "run e (ev # evs) sys = run e evs (step e ev sys)"
  by (simp add: run_def)

lemma run_Nil: "run e [] sys = sys"
  by (simp add: run_def)

lemma run_nonempty:
  assumes "\<forall>k. appContentCache (app sys) k \<noteq> Some []"
  shows "\<forall>k. appContentCache (app (run e evs sys)) k \<noteq> Some []"
proof (induction evs rule: rev_induct)
  case Nil
  with assms show ?case by (simp add: run_Nil)
next
  case (snoc ev evs)
  then show ?case by (simp add: run_snoc step_nonempty)
qed

subsection \<open>The values stored in the cache\<close>

text \<open>
  Claim C10. No run of the component, from the initial state or from any state whose
  cache holds no empty string, leads to a cache entry holding the empty string. Only
  the cache effect after a render writes the cache; when it writes, loading has
  finished, the current content is not empty, and the value written is that content.
\<close>

theorem cache_values_nonempty:
  "(\<forall>k. appContentCache (app (run e evs initial_system)) k \<noteq> Some []) \<and>
   ((\<forall>k. appContentCache (app sys) k \<noteq> Some []) \<longrightarrow>
      (\<forall>k. appContentCache (app (run e evs sys)) k \<noteq> Some [])) \<and>
   (ev \<noteq> Render \<longrightarrow> appContentCache (app (step e ev sys)) = appContentCache (app sys)) \<and>
   (appContentCache (app (step e Render sys)) = appContentCache (app sys) \<or>
    (\<not> isLoading (app sys) \<and> llmContent (app sys) \<noteq> [] \<and>
     appContentCache (app (step e Render sys)) =
       (appContentCache (app sys))
         (join ''__'' (currentAppPath (app sys)) \<mapsto> llmContent (app sys))))"
proof (intro conjI impI)
  have "\<forall>k. appContentCache (app initial_system) k \<noteq> Some []"
    by (simp add: initial_system_def initial_state_def)
  then show "\<forall>k. appContentCache (app (run e evs initial_system)) k \<noteq> Some []"
    by (rule run_nonempty)
next
  assume "\<forall>k. appContentCache (app sys) k \<noteq> Some []"
  then show "\<forall>k. appContentCache (app (run e evs sys)) k \<noteq> Some []"
    by (rule run_nonempty)
next
  assume "ev \<noteq> Render"
  then show "appContentCache (app (step e ev sys)) = appContentCache (app sys)"
    by (rule cache_step)
next
  show "appContentCache (app (step e Render sys)) = appContentCache (app sys) \<or>
    (\<not> isLoading (app sys) \<and> llmContent (app sys) \<noteq> [] \<and>
     appContentCache (app (step e Render sys)) =
       (appContentCache (app sys))
         (join ''__'' (currentAppPath (app sys)) \<mapsto> llmContent (app sys)))"
    using cache_effect_writes [of "app sys"] by auto
qed

text \<open>
  The theorem at the run in which the calendar app is opened and its generation runs
  to the end, and at the exit button as the event that is not a render.
\<close>

theorem cache_values_nonempty_witness:
  "(\<forall>k. appContentCache (app initial_system) k \<noteq> Some []) \<and>
   ExitToDesktop \<noteq> Render \<and>
   (\<forall>k. appContentCache (app (run demo_env
      (rendered [AppOpen calendar_app, Resume 0, Resume 0, Resume 0, Resume 0]) initial_system)) k
        \<noteq> Some []) \<and>
   appContentCache (app (step demo_env ExitToDesktop initial_system)) =
     appContentCache (app initial_system)"
proof -
  have h1: "\<forall>k. appContentCache (app initial_system) k \<noteq> Some []"
    by (simp add: initial_system_def initial_state_def)
  have h2: "ExitToDesktop \<noteq> Render" by simp
  from cache_values_nonempty [of demo_env
      "rendered [AppOpen calendar_app, Resume 0, Resume 0, Resume 0, Resume 0]"
      initial_system ExitToDesktop] h1 h2
  show ?thesis by simp
qed

subsection \<open>The history window\<close>

lemma slice0_take: "1 \<le> H \<Longrightarrow> slice0 xs (H - 1) = take (nat H - 1) xs"
  by (simp add: slice0_def nat_diff_distrib)

lemma history_internalHandleLlmRequest:
  "interactionHistory (app (internalHandleLlmRequest e h m p sys)) = interactionHistory (app sys)"
  by (simp add: internalHandleLlmRequest_def)

lemma history_standard_app_logic:
  "interactionHistory (app (standard_app_logic e d sys)) =
     d # slice0 (interactionHistory (app sys)) (MAX_HISTORY_LENGTH e - 1)"
  by (simp add: standard_app_logic_def Let_def history_internalHandleLlmRequest)

lemma history_handleAppOpen:
  "interactionHistory (app (handleAppOpen e a sys)) = [initialInteraction a]"
  by (simp add: handleAppOpen_def Let_def history_internalHandleLlmRequest initialInteraction_def)

lemma history_resume: "interactionHistory (app (resume k sys)) = interactionHistory (app sys)"
  by (simp add: resume_def Let_def split: list.splits stream_end.splits)

lemma history_cache_effect: "interactionHistory (cache_effect s) = interactionHistory s"
  by (simp add: cache_effect_def Let_def)

lemma history_flow_apply: "interactionHistory (flow_apply w s) = interactionHistory s"
  by (cases w) simp_all

lemma history_handleInteraction:
  "interactionHistory (app (handleInteraction e d sys)) =
     (if standard_interaction d
      then d # slice0 (interactionHistory (app sys)) (MAX_HISTORY_LENGTH e - 1)
      else if iid d = ''app_close_button'' then []
      else interactionHistory (app sys))"
proof (cases "standard_interaction d")
  case True
  then show ?thesis by (simp add: handleInteraction_standard history_standard_app_logic)
next
  case False
  then show ?thesis
    by (auto simp: handleInteraction_def standard_interaction_def handleCloseAppView_def)
qed

lemma step_history_bound:
  assumes "1 \<le> MAX_HISTORY_LENGTH e"
    and "length (interactionHistory (app sys)) \<le> nat (MAX_HISTORY_LENGTH e)"
  shows "length (interactionHistory (app (step e ev sys))) \<le> nat (MAX_HISTORY_LENGTH e)"
proof (cases ev)
  case (AppOpen a)
  with assms(1) show ?thesis by (simp add: history_handleAppOpen)
next
  case (Interaction d)
  have "length (d # take (nat (MAX_HISTORY_LENGTH e) - 1) (interactionHistory (app sys)))
          \<le> nat (MAX_HISTORY_LENGTH e)"
    using assms(1) by simp
  with assms show ?thesis
    by (simp add: Interaction history_handleInteraction slice0_take)
next
  case ExitToDesktop
  then show ?thesis by (simp add: handleCloseAppView_def)
next
  case (Resume k)
  with assms show ?thesis by (simp add: history_resume)
next
  case Render
  with assms show ?thesis by (simp add: history_cache_effect)
next
  case (Flow w)
  with assms show ?thesis by (simp add: history_flow_apply)
qed

lemma run_history_bound:
  assumes "1 \<le> MAX_HISTORY_LENGTH e"
    and "length (interactionHistory (app sys)) \<le> nat (MAX_HISTORY_LENGTH e)"
  shows "length (interactionHistory (app (run e evs sys))) \<le> nat (MAX_HISTORY_LENGTH e)"
proof (induction evs rule: rev_induct)
  case Nil
  with assms show ?case by (simp add: run_Nil)
next
  case (snoc ev evs)
  with assms(1) show ?case by (simp add: run_snoc step_history_bound)
qed

lemma take_Cons_take:
  "0 < n \<Longrightarrow> d # take (n - 1) (take n xs) = take n (d # xs)"
  by (cases n) (simp_all add: min_def)

lemma run_interactions_history:
  assumes "1 \<le> MAX_HISTORY_LENGTH e"
    and "\<forall>d\<in>set ds. standard_interaction d"
  shows "take (nat (MAX_HISTORY_LENGTH e)) (interactionHistory (app (run e (map Interaction ds) sys))) =
           take (nat (MAX_HISTORY_LENGTH e)) (rev ds @ interactionHistory (app sys))"
  using assms(2)
proof (induction ds rule: rev_induct)
  case Nil
  then show ?case by (simp add: run_Nil)
next
  case (snoc d ds)
  let ?n = "nat (MAX_HISTORY_LENGTH e)"
  let ?h = "interactionHistory (app (run e (map Interaction ds) sys))"
  from assms(1) have n: "0 < ?n" by simp
  from snoc have IH: "take ?n ?h = take ?n (rev ds @ interactionHistory (app sys))"
    and d: "standard_interaction d" by simp_all
  have "interactionHistory (app (run e (map Interaction (ds @ [d])) sys)) = d # take (?n - 1) ?h"
    using d assms(1) by (simp add: run_snoc history_handleInteraction slice0_take)
  also have "take ?n \<dots> = d # take (?n - 1) (take ?n ?h)"
    using n by (cases ?n) (simp_all add: min_def)
  also have "\<dots> = d # take (?n - 1) (take ?n (rev ds @ interactionHistory (app sys)))"
    by (simp only: IH)
  also have "\<dots> = take ?n (d # rev ds @ interactionHistory (app sys))"
    using n by (rule take_Cons_take)
  finally show ?case by simp
qed

text \<open>
  Claim C9, for a maximum \<open>MAX_HISTORY_LENGTH\<close> of at least 1. Whatever events are
  handled, the history never holds more than the maximum. Opening an app sets it to
  the single opening record; an interaction that reaches the standard logic prepends
  its record and keeps the first \<open>MAX_HISTORY_LENGTH - 1\<close> of the old ones, so after
  any sequence of such interactions the history is the records in reverse order of
  arrival, the most recent first, followed by the old history, cut at the maximum.
\<close>

theorem history_window:
  assumes "1 \<le> MAX_HISTORY_LENGTH e"
    and "length (interactionHistory (app sys)) \<le> nat (MAX_HISTORY_LENGTH e)"
  shows "length (interactionHistory (app (run e evs sys))) \<le> nat (MAX_HISTORY_LENGTH e) \<and>
    interactionHistory (app (handleAppOpen e a sys)) = [initialInteraction a] \<and>
    (standard_interaction d \<longrightarrow>
       interactionHistory (app (handleInteraction e d sys)) =
         d # take (nat (MAX_HISTORY_LENGTH e) - 1) (interactionHistory (app sys))) \<and>
    ((\<forall>d\<in>set ds. standard_interaction d) \<longrightarrow>
       interactionHistory (app (run e (map Interaction ds) sys)) =
         take (nat (MAX_HISTORY_LENGTH e)) (rev ds @ interactionHistory (app sys)))"
proof (intro conjI impI)
  show "length (interactionHistory (app (run e evs sys))) \<le> nat (MAX_HISTORY_LENGTH e)"
    using assms by (rule run_history_bound)
  show "interactionHistory (app (handleAppOpen e a sys)) = [initialInteraction a]"
    by (rule history_handleAppOpen)
next
  assume "standard_interaction d"
  then show "interactionHistory (app (handleInteraction e d sys)) =
         d # take (nat (MAX_HISTORY_LENGTH e) - 1) (interactionHistory (app sys))"
    using assms(1) by (simp add: history_handleInteraction slice0_take)
next
  assume ds: "\<forall>d\<in>set ds. standard_interaction d"
  have "length (interactionHistory (app (run e (map Interaction ds) sys)))
          \<le> nat (MAX_HISTORY_LENGTH e)"
    using assms by (rule run_history_bound)
  then have "interactionHistory (app (run e (map Interaction ds) sys)) =
      take (nat (MAX_HISTORY_LENGTH e)) (interactionHistory (app (run e (map Interaction ds) sys)))"
    by simp
  also have "\<dots> = take (nat (MAX_HISTORY_LENGTH e)) (rev ds @ interactionHistory (app sys))"
    using assms(1) ds by (rule run_interactions_history)
  finally show "interactionHistory (app (run e (map Interaction ds) sys)) =
         take (nat (MAX_HISTORY_LENGTH e)) (rev ds @ interactionHistory (app sys))" .
qed

text \<open>
  The theorem with a maximum of 3 at four clicks after the initial state: the three
  most recent remain, the most recent first.
\<close>

theorem history_window_witness:
  "1 \<le> MAX_HISTORY_LENGTH demo_env \<and>
   length (interactionHistory (app initial_system)) \<le> nat (MAX_HISTORY_LENGTH demo_env) \<and>
   standard_interaction (click ''a'') \<and> standard_interaction (click ''b'') \<and>
   standard_interaction (click ''c'') \<and> standard_interaction (click ''d'') \<and>
   interactionHistory (app (run demo_env
      (map Interaction [click ''a'', click ''b'', click ''c'', click ''d'']) initial_system)) =
     [click ''d'', click ''c'', click ''b''] \<and>
   interactionHistory (app (handleInteraction demo_env (click ''a'') initial_system)) = [click ''a'']"
proof -
  have h1: "1 \<le> MAX_HISTORY_LENGTH demo_env" by (simp add: demo_env_def)
  have h2: "length (interactionHistory (app initial_system)) \<le> nat (MAX_HISTORY_LENGTH demo_env)"
    by (simp add: initial_system_def initial_state_def)
  have h3: "standard_interaction (click i)" if "i \<in> {''a'', ''b'', ''c'', ''d''}" for i
    using that by (auto simp: standard_interaction_def click_def)
  have m: "nat (MAX_HISTORY_LENGTH demo_env) = 3" "interactionHistory (app initial_system) = []"
    by (simp_all add: demo_env_def initial_system_def initial_state_def)
  from history_window [OF h1 h2, of "[]" calendar_app "click ''a''"
      "[click ''a'', click ''b'', click ''c'', click ''d'']"] h1 h2 h3
  show ?thesis by (simp add: m)
qed

subsection \<open>The empty history\<close>

text \<open>
  Claim C6, as amended. Started with an empty history and the API key set,
  \<^verbatim>\<open>streamAppContent\<close> asks no generator and raises nothing: it delivers exactly
  one fragment, the notice that no interaction data was provided. The caller
  \<^verbatim>\<open>internalHandleLlmRequest\<close> guards the empty history itself: it sets the error
  message and returns without starting a stream, the rest of the state unchanged.
\<close>

theorem empty_history_notice:
  "streamAppContent True enc gen [] m p = [no_interaction_block] \<and>
   internalHandleLlmRequest e [] m p sys =
     sys\<lparr>app := (app sys)\<lparr>error := Some ''No interaction data to process.''\<rparr>\<rparr>"
  by (simp add: streamAppContent_def internalHandleLlmRequest_def)

text \<open>
  Claim C6 as stated fails: the stream started with an empty history delivers one
  fragment, not zero.
\<close>

theorem empty_history_counterexample:
  "length (streamAppContent True (\<lambda>u. u) (\<lambda>h m p. \<lparr>chunks = [], failure = None\<rparr>) [] 10 None) = 1"
  by (simp add: streamAppContent_def)

subsection \<open>The stateless app\<close>





subsection \<open>Running a generation\<close>

lemma resume_fragment:
  assumes "k < length (calls sys)" "\<not> settled (calls sys ! k)" "pending (calls sys ! k) = f # fs"
  shows "resume k sys =
    sys\<lparr>app := (app sys)\<lparr>llmContent := llmContent (app sys) @ f\<rparr>,
        calls := (calls sys)
          [k := (calls sys ! k)\<lparr>accumulatedContent := accumulatedContent (calls sys ! k) @ f,
                                 pending := fs\<rparr>]\<rparr>"
  using assms by (simp add: resume_def Let_def)

lemma resume_returns:
  assumes "k < length (calls sys)" "\<not> settled (calls sys ! k)" "pending (calls sys ! k) = []"
    "ending (calls sys ! k) = Returns"
  shows "resume k sys =
    sys\<lparr>app := (app sys)\<lparr>isLoading := False\<rparr>,
        calls := (calls sys)[k := (calls sys ! k)\<lparr>settled := True\<rparr>]\<rparr>"
  using assms by (simp add: resume_def Let_def)

lemma render_while_loading: "isLoading (app sys) \<Longrightarrow> step e Render sys = sys"
  by (simp add: cache_effect_def)

lemma rendered_Cons: "rendered (ev # evs) = ev # Render # rendered evs"
  by (simp add: rendered_def)

lemma rendered_Nil: "rendered [] = []"
  by (simp add: rendered_def)

lemma run_fragments:
  assumes "k < length (calls sys)" "\<not> settled (calls sys ! k)"
    "pending (calls sys ! k) = fs @ rest" "isLoading (app sys)"
  shows "run e (rendered (replicate (length fs) (Resume k))) sys =
    sys\<lparr>app := (app sys)\<lparr>llmContent := llmContent (app sys) @ concat fs\<rparr>,
        calls := (calls sys)
          [k := (calls sys ! k)\<lparr>accumulatedContent := accumulatedContent (calls sys ! k) @ concat fs,
                                 pending := rest\<rparr>]\<rparr>"
  using assms
proof (induction fs arbitrary: sys)
  case Nil
  then have "(calls sys)[k := (calls sys ! k)\<lparr>accumulatedContent := accumulatedContent (calls sys ! k),
                                 pending := rest\<rparr>] = calls sys"
    by (simp add: list_update_same_conv)
  then show ?case by (simp add: rendered_Nil run_Nil)
next
  case (Cons f fs)
  define sys1 where "sys1 = resume k sys"
  have p: "pending (calls sys ! k) = f # (fs @ rest)" using Cons.prems(3) by simp
  have s1: "sys1 =
    sys\<lparr>app := (app sys)\<lparr>llmContent := llmContent (app sys) @ f\<rparr>,
        calls := (calls sys)
          [k := (calls sys ! k)\<lparr>accumulatedContent := accumulatedContent (calls sys ! k) @ f,
                                 pending := fs @ rest\<rparr>]\<rparr>"
    unfolding sys1_def using Cons.prems(1,2) p by (rule resume_fragment)
  have l1: "isLoading (app sys1)" using Cons.prems(4) by (simp add: s1)
  have k1: "k < length (calls sys1)" using Cons.prems(1) by (simp add: s1)
  have c1: "calls sys1 ! k = (calls sys ! k)\<lparr>accumulatedContent := accumulatedContent (calls sys ! k) @ f,
                                 pending := fs @ rest\<rparr>"
    using Cons.prems(1) by (simp add: s1)
  have n1: "\<not> settled (calls sys1 ! k)" using Cons.prems(2) by (simp add: c1)
  have p1: "pending (calls sys1 ! k) = fs @ rest" by (simp add: c1)
  have "run e (rendered (replicate (length (f # fs)) (Resume k))) sys =
        run e (rendered (replicate (length fs) (Resume k))) (step e Render sys1)"
    by (simp add: rendered_Cons run_Cons sys1_def)
  also have "\<dots> = run e (rendered (replicate (length fs) (Resume k))) sys1"
    by (simp only: render_while_loading [OF l1])
  also have "\<dots> = sys1\<lparr>app := (app sys1)\<lparr>llmContent := llmContent (app sys1) @ concat fs\<rparr>,
        calls := (calls sys1)
          [k := (calls sys1 ! k)\<lparr>accumulatedContent := accumulatedContent (calls sys1 ! k) @ concat fs,
                                 pending := rest\<rparr>]\<rparr>"
    using k1 n1 p1 l1 by (rule Cons.IH)
  also have "\<dots> = sys\<lparr>app := (app sys)\<lparr>llmContent := llmContent (app sys) @ concat (f # fs)\<rparr>,
        calls := (calls sys)
          [k := (calls sys ! k)\<lparr>accumulatedContent := accumulatedContent (calls sys ! k) @ concat (f # fs),
                                 pending := rest\<rparr>]\<rparr>"
    unfolding c1 by (simp add: s1)
  finally show ?case .
qed

lemma error_block_nonempty: "error_block err \<noteq> []"
  by (simp add: error_block_def)

lemma stream_failure:
  assumes "failure r = Some err"
  shows "stream_response enc r = concat (map chunk_yield (chunks r)) @ [error_block err]"
  using assms by (simp add: stream_response_def)

subsection \<open>A generation that ends in a terminal error\<close>

lemma failed_generation:
  assumes key: "API_KEY e"
    and app: "app_id a \<noteq> ''task_handoff_app''"
    and miss: "\<not> truthy (appContentCache (app sys) (app_id a))"
    and fail: "failure (generateContentStream e (length (calls sys)) [initialInteraction a]
                 (MAX_HISTORY_LENGTH e) None) = Some err"
  defines "texts \<equiv> concat (map chunk_yield (chunks (generateContentStream e (length (calls sys))
                       [initialInteraction a] (MAX_HISTORY_LENGTH e) None)))"
  shows "app (run e (rendered (AppOpen a # replicate (length texts + 2) (Resume (length (calls sys))))) sys) =
    (app sys)\<lparr>interactionHistory := [initialInteraction a], currentAppPath := [app_id a],
              activeApp := Some a, llmContent := concat texts @ error_block err, error := None,
              isLoading := False,
              appContentCache := (appContentCache (app sys))
                                   (app_id a \<mapsto> concat texts @ error_block err)\<rparr>"
proof -
  define k where "k = length (calls sys)"
  define frs where "frs = texts @ [error_block err]"
  define s1 where "s1 = (app sys)\<lparr>interactionHistory := [initialInteraction a],
      currentAppPath := [app_id a], activeApp := Some a, llmContent := [], error := None,
      isLoading := True\<rparr>"
  define c0 where "c0 = \<lparr>accumulatedContent = [], pending = frs, ending = Returns, settled = False\<rparr>"
  define sys1 where "sys1 = \<lparr>app = s1, calls = calls sys @ [c0]\<rparr>"
  have frs: "streamAppContent (API_KEY e) (encodeURI e) (generateContentStream e (length (calls sys)))
      [initialInteraction a] (MAX_HISTORY_LENGTH e) None = frs"
    using key fail by (simp add: streamAppContent_def stream_failure frs_def texts_def)
  have open1: "handleAppOpen e a sys = sys1"
    using app miss frs
    by (simp add: handleAppOpen_def Let_def internalHandleLlmRequest_def initialInteraction_def
        sys1_def s1_def c0_def)
  have k1: "k < length (calls sys1)" "calls sys1 ! k = c0"
    by (simp_all add: sys1_def k_def)
  have l1: "isLoading (app sys1)" by (simp add: sys1_def s1_def)
  define sys2 where "sys2 = run e (rendered (replicate (length frs) (Resume k))) sys1"
  have "sys2 = sys1\<lparr>app := (app sys1)\<lparr>llmContent := llmContent (app sys1) @ concat frs\<rparr>,
        calls := (calls sys1)
          [k := (calls sys1 ! k)\<lparr>accumulatedContent := accumulatedContent (calls sys1 ! k) @ concat frs,
                                  pending := []\<rparr>]\<rparr>"
    unfolding sys2_def
    by (rule run_fragments) (simp_all add: k1 c0_def l1)
  then have s2: "sys2 = \<lparr>app = s1\<lparr>llmContent := concat frs\<rparr>,
      calls = calls sys @ [c0\<lparr>accumulatedContent := concat frs, pending := []\<rparr>]\<rparr>"
    by (simp add: sys1_def k_def c0_def s1_def)
  define sys3 where "sys3 = resume k sys2"
  have "sys3 = sys2\<lparr>app := (app sys2)\<lparr>isLoading := False\<rparr>,
        calls := (calls sys2)[k := (calls sys2 ! k)\<lparr>settled := True\<rparr>]\<rparr>"
    unfolding sys3_def by (rule resume_returns) (simp_all add: s2 k_def c0_def)
  then have s3: "app sys3 = s1\<lparr>llmContent := concat frs, isLoading := False\<rparr>"
    by (simp add: s2)
  have ne: "concat frs \<noteq> []" by (simp add: frs_def error_block_nonempty)
  have "appContentCache (app sys) (app_id a) \<noteq> Some (concat frs)"
    using miss ne by (auto simp: truthy_def)
  then have s4: "cache_effect (app sys3) =
      s1\<lparr>llmContent := concat frs, isLoading := False,
         appContentCache := (appContentCache (app sys))(app_id a \<mapsto> concat frs)\<rparr>"
    using app ne by (simp add: cache_effect_def s3 s1_def Let_def)
  have "replicate (length texts + 2) (Resume k) = replicate (length frs) (Resume k) @ [Resume k]"
    by (simp add: frs_def replicate_append_same)
  then have "rendered (AppOpen a # replicate (length texts + 2) (Resume k)) =
      [AppOpen a, Render] @ rendered (replicate (length frs) (Resume k)) @ [Resume k, Render]"
    by (simp add: rendered_def)
  then have "run e (rendered (AppOpen a # replicate (length texts + 2) (Resume k))) sys =
      step e Render (resume k (run e (rendered (replicate (length frs) (Resume k)))
        (step e Render (handleAppOpen e a sys))))"
    by (simp add: run_append run_Cons run_Nil)
  also have "\<dots> = step e Render sys3"
    by (simp only: open1 render_while_loading [OF l1] sys2_def [symmetric] sys3_def)
  finally have "app (run e (rendered (AppOpen a # replicate (length texts + 2) (Resume k))) sys) =
      cache_effect (app sys3)" by simp
  then show ?thesis
    unfolding s4 by (simp add: k_def s1_def frs_def)
qed

lemma replay_cached:
  assumes "app_id a \<noteq> ''task_handoff_app''" "appContentCache (app sys) (app_id a) = Some c" "c \<noteq> []"
  shows "llmContent (app (handleAppOpen e a sys)) = c \<and> calls (handleAppOpen e a sys) = calls sys"
  using assms by (simp add: handleAppOpen_def Let_def truthy_def)

lemma completed_generation:
  assumes k: "k < length (calls sys)"
    and c: "calls sys ! k =
              \<lparr>accumulatedContent = [], pending = frs, ending = Returns, settled = False\<rparr>"
    and l: "isLoading (app sys)" and empty: "llmContent (app sys) = []"
    and ne: "concat frs \<noteq> []" and path: "currentAppPath (app sys) \<noteq> []"
    and act: "active_not_stateless (app sys)"
  shows "app (run e (rendered (replicate (length frs + 1) (Resume k))) sys) =
    (app sys)\<lparr>llmContent := concat frs, isLoading := False,
      appContentCache := (appContentCache (app sys))
                           (join ''__'' (currentAppPath (app sys)) \<mapsto> concat frs)\<rparr>"
proof -
  define sys2 where "sys2 = run e (rendered (replicate (length frs) (Resume k))) sys"
  have "sys2 = sys\<lparr>app := (app sys)\<lparr>llmContent := llmContent (app sys) @ concat frs\<rparr>,
        calls := (calls sys)
          [k := (calls sys ! k)\<lparr>accumulatedContent := accumulatedContent (calls sys ! k) @ concat frs,
                                 pending := []\<rparr>]\<rparr>"
    unfolding sys2_def by (rule run_fragments) (simp_all add: k c l)
  then have s2: "app sys2 = (app sys)\<lparr>llmContent := concat frs\<rparr>"
    "k < length (calls sys2)" "\<not> settled (calls sys2 ! k)" "pending (calls sys2 ! k) = []"
    "ending (calls sys2 ! k) = Returns"
    using k by (simp_all add: c empty)
  define sys3 where "sys3 = resume k sys2"
  have "sys3 = sys2\<lparr>app := (app sys2)\<lparr>isLoading := False\<rparr>,
        calls := (calls sys2)[k := (calls sys2 ! k)\<lparr>settled := True\<rparr>]\<rparr>"
    unfolding sys3_def using s2(2-5) by (rule resume_returns)
  then have s3: "app sys3 = (app sys)\<lparr>llmContent := concat frs, isLoading := False\<rparr>"
    by (simp add: s2(1))
  have s4: "cache_effect (app sys3) =
      (app sys)\<lparr>llmContent := concat frs, isLoading := False,
        appContentCache := (appContentCache (app sys))
                             (join ''__'' (currentAppPath (app sys)) \<mapsto> concat frs)\<rparr>"
  proof (cases "appContentCache (app sys) (join ''__'' (currentAppPath (app sys))) = Some (concat frs)")
    case True
    then have "(appContentCache (app sys))
                 (join ''__'' (currentAppPath (app sys)) \<mapsto> concat frs) = appContentCache (app sys)"
      by (rule map_upd_triv)
    with True show ?thesis
      using act ne path
      by (simp add: cache_effect_def s3 Let_def active_not_stateless_def split: option.splits)
  next
    case False
    then show ?thesis
      using act ne path
      by (simp add: cache_effect_def s3 Let_def active_not_stateless_def split: option.splits)
  qed
  have "replicate (length frs + 1) (Resume k) = replicate (length frs) (Resume k) @ [Resume k]"
    by (simp add: replicate_append_same)
  then have "rendered (replicate (length frs + 1) (Resume k)) =
      rendered (replicate (length frs) (Resume k)) @ [Resume k, Render]"
    by (simp add: rendered_def)
  then have "run e (rendered (replicate (length frs + 1) (Resume k))) sys = step e Render sys3"
    by (simp add: run_append run_Cons run_Nil sys2_def sys3_def)
  then show ?thesis by (simp add: s4)
qed

lemma failed_generation_in_app:
  assumes key: "API_KEY e"
    and std: "standard_interaction d"
    and act: "active_not_stateless (app sys)"
    and miss: "\<not> truthy (appContentCache (app sys) (join ''__'' (path_after (app sys) d)))"
    and fail: "failure (generateContentStream e (length (calls sys)) (history_after e (app sys) d)
                 (MAX_HISTORY_LENGTH e) (Some (llmContent (app sys)))) = Some err"
  defines "texts \<equiv> concat (map chunk_yield (chunks (generateContentStream e (length (calls sys))
                       (history_after e (app sys) d) (MAX_HISTORY_LENGTH e)
                       (Some (llmContent (app sys))))))"
  shows "app (run e (rendered (Interaction d #
                replicate (length texts + 2) (Resume (length (calls sys))))) sys) =
    (app sys)\<lparr>interactionHistory := history_after e (app sys) d,
              currentAppPath := path_after (app sys) d,
              llmContent := concat texts @ error_block err, error := None,
              isLoading := False,
              appContentCache := (appContentCache (app sys))
                (join ''__'' (path_after (app sys) d) \<mapsto> concat texts @ error_block err)\<rparr>"
proof -
  define k where "k = length (calls sys)"
  define frs where "frs = texts @ [error_block err]"
  define s1 where "s1 = (app sys)\<lparr>interactionHistory := history_after e (app sys) d,
      currentAppPath := path_after (app sys) d, llmContent := [], error := None,
      isLoading := True\<rparr>"
  define c0 where "c0 = \<lparr>accumulatedContent = [], pending = frs, ending = Returns, settled = False\<rparr>"
  define sys1 where "sys1 = \<lparr>app = s1, calls = calls sys @ [c0]\<rparr>"
  have frs: "streamAppContent (API_KEY e) (encodeURI e) (generateContentStream e (length (calls sys)))
      (history_after e (app sys) d) (MAX_HISTORY_LENGTH e) (Some (llmContent (app sys))) = frs"
    using key fail
    by (simp add: streamAppContent_def stream_failure frs_def texts_def history_after_def)
  have start: "handleInteraction e d sys = sys1"
    using miss frs
    by (simp add: handleInteraction_standard [OF std] standard_app_logic_def Let_def
        internalHandleLlmRequest_def sys1_def s1_def c0_def path_after_def history_after_def)
  have l1: "isLoading (app sys1)" by (simp add: sys1_def s1_def)
  have p1: "currentAppPath (app sys1) \<noteq> []"
    by (simp add: sys1_def s1_def path_after_def)
  have a1: "active_not_stateless (app sys1)"
    using act by (simp add: sys1_def s1_def active_not_stateless_def)
  have ne: "concat frs \<noteq> []" by (simp add: frs_def error_block_nonempty)
  have k1: "k < length (calls sys1)" by (simp add: sys1_def k_def)
  have c1: "calls sys1 ! k =
      \<lparr>accumulatedContent = [], pending = frs, ending = Returns, settled = False\<rparr>"
    by (simp add: sys1_def k_def c0_def)
  have e1: "llmContent (app sys1) = []" by (simp add: sys1_def s1_def)
  have fin: "app (run e (rendered (replicate (length frs + 1) (Resume k))) sys1) =
    (app sys1)\<lparr>llmContent := concat frs, isLoading := False,
      appContentCache := (appContentCache (app sys1))
                           (join ''__'' (currentAppPath (app sys1)) \<mapsto> concat frs)\<rparr>"
    using k1 c1 l1 e1 ne p1 a1 by (rule completed_generation)
  have "rendered (Interaction d # replicate (length texts + 2) (Resume k)) =
      [Interaction d, Render] @ rendered (replicate (length frs + 1) (Resume k))"
    by (simp add: rendered_def frs_def)
  then have "run e (rendered (Interaction d # replicate (length texts + 2) (Resume k))) sys =
      run e (rendered (replicate (length frs + 1) (Resume k)))
        (step e Render (handleInteraction e d sys))"
    by (simp add: run_append run_Cons run_Nil)
  also have "\<dots> = run e (rendered (replicate (length frs + 1) (Resume k))) sys1"
    by (simp only: start render_while_loading [OF l1])
  finally have "app (run e (rendered (Interaction d # replicate (length texts + 2) (Resume k))) sys) =
    (app sys1)\<lparr>llmContent := concat frs, isLoading := False,
      appContentCache := (appContentCache (app sys1))
                           (join ''__'' (currentAppPath (app sys1)) \<mapsto> concat frs)\<rparr>"
    by (simp only: fin)
  also have "\<dots> = (app sys)\<lparr>interactionHistory := history_after e (app sys) d,
              currentAppPath := path_after (app sys) d,
              llmContent := concat texts @ error_block err, error := None,
              isLoading := False,
              appContentCache := (appContentCache (app sys))
                (join ''__'' (path_after (app sys) d) \<mapsto> concat texts @ error_block err)\<rparr>"
    by (simp add: sys1_def s1_def frs_def)
  finally show ?thesis unfolding k_def .
qed

lemma replay_cached_in_app:
  assumes "standard_interaction d" "active_not_stateless (app sys)"
    "appContentCache (app sys) (join ''__'' (path_after (app sys) d)) = Some c" "c \<noteq> []"
  shows "llmContent (app (handleInteraction e d sys)) = c \<and>
         \<not> isLoading (app (handleInteraction e d sys)) \<and>
         calls (handleInteraction e d sys) = calls sys"
  using assms(2-4)
  by (simp add: handleInteraction_standard [OF assms(1)] standard_app_logic_def Let_def
      truthy_def path_after_def active_not_stateless_def split: option.splits)

lemma handleAppOpen_fields:
  "activeApp (app (handleAppOpen e a sys)) = Some a \<and>
   currentAppPath (app (handleAppOpen e a sys)) = [app_id a]"
  by (simp add: handleAppOpen_def Let_def internalHandleLlmRequest_def)

lemma retried_in_app:
  assumes std: "standard_interaction d"
    and a: "app_id a \<noteq> ''task_handoff_app''"
    and c: "appContentCache (app final) (join ''__'' [app_id a, iid d]) = Some content"
    and ne: "content \<noteq> []"
  shows "llmContent (app (run e [ExitToDesktop, AppOpen a, Interaction d] final)) = content \<and>
         calls (run e [ExitToDesktop, AppOpen a, Interaction d] final) =
           calls (run e [ExitToDesktop, AppOpen a] final)"
proof -
  define sys2 where "sys2 = run e [ExitToDesktop, AppOpen a] final"
  have s2: "sys2 = handleAppOpen e a (step e ExitToDesktop final)"
    by (simp add: sys2_def run_Cons run_Nil)
  have "appContentCache (app sys2) = appContentCache (app final)"
    unfolding s2 by (simp only: cache_handleAppOpen) (rule cache_step, simp)
  moreover have f: "activeApp (app sys2) = Some a" "currentAppPath (app sys2) = [app_id a]"
    unfolding s2 by (simp_all add: handleAppOpen_fields)
  ultimately have c2: "appContentCache (app sys2) (join ''__'' (path_after (app sys2) d)) = Some content"
    using c by (simp add: path_after_def)
  have a2: "active_not_stateless (app sys2)" using a f by (simp add: active_not_stateless_def)
  have "llmContent (app (handleInteraction e d sys2)) = content \<and>
         \<not> isLoading (app (handleInteraction e d sys2)) \<and>
         calls (handleInteraction e d sys2) = calls sys2"
    using std a2 c2 ne by (rule replay_cached_in_app)
  moreover have "run e [ExitToDesktop, AppOpen a, Interaction d] final = handleInteraction e d sys2"
    by (simp add: sys2_def run_Cons run_Nil)
  ultimately show ?thesis by (simp add: sys2_def)
qed

lemma demo_stream:
  "streamAppContent True (\<lambda>u. u) (\<lambda>h m p. demo_response 0) [initialInteraction calendar_app] 3 None =
     [''<p>'', ''old'', error_block (ErrorInstance ''network'')]"
  by (simp add: streamAppContent_def stream_response_def demo_response_def chunk_yield_def truthy_def)

text \<open>
  Claim C1, as amended. A generation that ends in a terminal error is cached like
  any other, under the path key of the interaction that started it. Let the API key
  be set. When an app other than \<^verbatim>\<open>task_handoff_app\<close> is opened, or an interaction
  reaches the standard logic while the active app is not \<^verbatim>\<open>task_handoff_app\<close>,
  with no usable cache entry under its path key, and the remote stream fails, and
  the call runs to its end with a render after every event, then the content is the
  texts delivered followed by the error block, loading has finished, and the cache
  effect has stored that content under the path key. An app opening or an
  interaction that arrives at a path key under which a non-empty entry is stored is
  served that entry and starts no generation; so opening the app again, or leaving
  the app, opening it again and repeating the interaction, replays the failure.
\<close>

theorem failed_generation_is_cached:
  assumes "API_KEY e"
  shows
   "(app_id a \<noteq> ''task_handoff_app'' \<and>
     \<not> truthy (appContentCache (app sys) (app_id a)) \<and>
     failure (generateContentStream e (length (calls sys)) [initialInteraction a]
       (MAX_HISTORY_LENGTH e) None) = Some err \<longrightarrow>
     (let texts = concat (map chunk_yield (chunks (generateContentStream e (length (calls sys))
                    [initialInteraction a] (MAX_HISTORY_LENGTH e) None)));
          content = concat texts @ error_block err;
          final = run e (rendered (AppOpen a #
                    replicate (length texts + 2) (Resume (length (calls sys))))) sys
      in llmContent (app final) = content \<and> \<not> isLoading (app final) \<and>
         appContentCache (app final) (app_id a) = Some content \<and>
         llmContent (app (handleAppOpen e a final)) = content \<and>
         calls (handleAppOpen e a final) = calls final)) \<and>
    (standard_interaction d \<and> active_not_stateless (app sys) \<and>
     \<not> truthy (appContentCache (app sys) (join ''__'' (path_after (app sys) d))) \<and>
     failure (generateContentStream e (length (calls sys)) (history_after e (app sys) d)
       (MAX_HISTORY_LENGTH e) (Some (llmContent (app sys)))) = Some err \<longrightarrow>
     (let texts = concat (map chunk_yield (chunks (generateContentStream e (length (calls sys))
                    (history_after e (app sys) d) (MAX_HISTORY_LENGTH e)
                    (Some (llmContent (app sys))))));
          content = concat texts @ error_block err;
          final = run e (rendered (Interaction d #
                    replicate (length texts + 2) (Resume (length (calls sys))))) sys
      in llmContent (app final) = content \<and> \<not> isLoading (app final) \<and>
         currentAppPath (app final) = path_after (app sys) d \<and>
         appContentCache (app final) (join ''__'' (path_after (app sys) d)) = Some content \<and>
         (activeApp (app sys) = Some a \<and> currentAppPath (app sys) = [app_id a] \<longrightarrow>
            llmContent (app (run e [ExitToDesktop, AppOpen a, Interaction d] final)) = content \<and>
            calls (run e [ExitToDesktop, AppOpen a, Interaction d] final) =
              calls (run e [ExitToDesktop, AppOpen a] final)))) \<and>
    (standard_interaction d \<and> active_not_stateless (app sys) \<and>
     appContentCache (app sys) (join ''__'' (path_after (app sys) d)) = Some c \<and> c \<noteq> [] \<longrightarrow>
       llmContent (app (handleInteraction e d sys)) = c \<and>
       \<not> isLoading (app (handleInteraction e d sys)) \<and>
       calls (handleInteraction e d sys) = calls sys) \<and>
    (app_id a \<noteq> ''task_handoff_app'' \<and>
     appContentCache (app sys) (app_id a) = Some c \<and> c \<noteq> [] \<longrightarrow>
       llmContent (app (handleAppOpen e a sys)) = c \<and>
       calls (handleAppOpen e a sys) = calls sys)"
proof (intro conjI impI)
  assume h: "app_id a \<noteq> ''task_handoff_app'' \<and>
     \<not> truthy (appContentCache (app sys) (app_id a)) \<and>
     failure (generateContentStream e (length (calls sys)) [initialInteraction a]
       (MAX_HISTORY_LENGTH e) None) = Some err"
  define texts where "texts = concat (map chunk_yield (chunks (generateContentStream e (length (calls sys))
                       [initialInteraction a] (MAX_HISTORY_LENGTH e) None)))"
  define final where "final = run e (rendered (AppOpen a #
                       replicate (length texts + 2) (Resume (length (calls sys))))) sys"
  have f: "app final =
    (app sys)\<lparr>interactionHistory := [initialInteraction a], currentAppPath := [app_id a],
              activeApp := Some a, llmContent := concat texts @ error_block err, error := None,
              isLoading := False,
              appContentCache := (appContentCache (app sys))
                                   (app_id a \<mapsto> concat texts @ error_block err)\<rparr>"
    unfolding final_def texts_def using assms h by (intro failed_generation) simp_all
  have c: "appContentCache (app final) (app_id a) = Some (concat texts @ error_block err)"
    by (simp add: f)
  have "concat texts @ error_block err \<noteq> []" by (simp add: error_block_nonempty)
  with h c have "llmContent (app (handleAppOpen e a final)) = concat texts @ error_block err \<and>
      calls (handleAppOpen e a final) = calls final"
    by (intro replay_cached) simp_all
  then show "let texts = concat (map chunk_yield (chunks (generateContentStream e (length (calls sys))
                    [initialInteraction a] (MAX_HISTORY_LENGTH e) None)));
          content = concat texts @ error_block err;
          final = run e (rendered (AppOpen a #
                    replicate (length texts + 2) (Resume (length (calls sys))))) sys
      in llmContent (app final) = content \<and> \<not> isLoading (app final) \<and>
         appContentCache (app final) (app_id a) = Some content \<and>
         llmContent (app (handleAppOpen e a final)) = content \<and>
         calls (handleAppOpen e a final) = calls final"
    unfolding Let_def texts_def [symmetric] final_def [symmetric] using c by (simp add: f)
next
  assume h: "standard_interaction d \<and> active_not_stateless (app sys) \<and>
     \<not> truthy (appContentCache (app sys) (join ''__'' (path_after (app sys) d))) \<and>
     failure (generateContentStream e (length (calls sys)) (history_after e (app sys) d)
       (MAX_HISTORY_LENGTH e) (Some (llmContent (app sys)))) = Some err"
  define texts where "texts = concat (map chunk_yield (chunks (generateContentStream e (length (calls sys))
                    (history_after e (app sys) d) (MAX_HISTORY_LENGTH e)
                    (Some (llmContent (app sys))))))"
  define content where "content = concat texts @ error_block err"
  define final where "final = run e (rendered (Interaction d #
                    replicate (length texts + 2) (Resume (length (calls sys))))) sys"
  have f: "app final =
    (app sys)\<lparr>interactionHistory := history_after e (app sys) d,
              currentAppPath := path_after (app sys) d,
              llmContent := content, error := None,
              isLoading := False,
              appContentCache := (appContentCache (app sys))
                (join ''__'' (path_after (app sys) d) \<mapsto> content)\<rparr>"
    unfolding final_def texts_def content_def using assms h
    by (intro failed_generation_in_app) simp_all
  have ne: "content \<noteq> []" by (simp add: content_def error_block_nonempty)
  have retry: "llmContent (app (run e [ExitToDesktop, AppOpen a, Interaction d] final)) = content \<and>
            calls (run e [ExitToDesktop, AppOpen a, Interaction d] final) =
              calls (run e [ExitToDesktop, AppOpen a] final)"
    if p: "activeApp (app sys) = Some a \<and> currentAppPath (app sys) = [app_id a]"
  proof -
    from p h have a: "app_id a \<noteq> ''task_handoff_app''"
      by (simp add: active_not_stateless_def)
    from p have "path_after (app sys) d = [app_id a, iid d]" by (simp add: path_after_def)
    then have "appContentCache (app final) (join ''__'' [app_id a, iid d]) = Some content"
      by (simp add: f)
    with h a show ?thesis using ne by (intro retried_in_app) simp_all
  qed
  have "llmContent (app final) = content \<and> \<not> isLoading (app final) \<and>
         currentAppPath (app final) = path_after (app sys) d \<and>
         appContentCache (app final) (join ''__'' (path_after (app sys) d)) = Some content \<and>
         (activeApp (app sys) = Some a \<and> currentAppPath (app sys) = [app_id a] \<longrightarrow>
            llmContent (app (run e [ExitToDesktop, AppOpen a, Interaction d] final)) = content \<and>
            calls (run e [ExitToDesktop, AppOpen a, Interaction d] final) =
              calls (run e [ExitToDesktop, AppOpen a] final))"
    using retry by (simp add: f)
  then show "let texts = concat (map chunk_yield (chunks (generateContentStream e (length (calls sys))
                    (history_after e (app sys) d) (MAX_HISTORY_LENGTH e)
                    (Some (llmContent (app sys))))));
          content = concat texts @ error_block err;
          final = run e (rendered (Interaction d #
                    replicate (length texts + 2) (Resume (length (calls sys))))) sys
      in llmContent (app final) = content \<and> \<not> isLoading (app final) \<and>
         currentAppPath (app final) = path_after (app sys) d \<and>
         appContentCache (app final) (join ''__'' (path_after (app sys) d)) = Some content \<and>
         (activeApp (app sys) = Some a \<and> currentAppPath (app sys) = [app_id a] \<longrightarrow>
            llmContent (app (run e [ExitToDesktop, AppOpen a, Interaction d] final)) = content \<and>
            calls (run e [ExitToDesktop, AppOpen a, Interaction d] final) =
              calls (run e [ExitToDesktop, AppOpen a] final))"
    unfolding Let_def texts_def [symmetric] content_def [symmetric] final_def [symmetric] .
next
  assume "standard_interaction d \<and> active_not_stateless (app sys) \<and>
     appContentCache (app sys) (join ''__'' (path_after (app sys) d)) = Some c \<and> c \<noteq> []"
  then have "llmContent (app (handleInteraction e d sys)) = c \<and>
       \<not> isLoading (app (handleInteraction e d sys)) \<and>
       calls (handleInteraction e d sys) = calls sys"
    by (intro replay_cached_in_app) simp_all
  then show "llmContent (app (handleInteraction e d sys)) = c"
    "\<not> isLoading (app (handleInteraction e d sys))"
    "calls (handleInteraction e d sys) = calls sys" by simp_all
next
  assume "app_id a \<noteq> ''task_handoff_app'' \<and>
     appContentCache (app sys) (app_id a) = Some c \<and> c \<noteq> []"
  then have "llmContent (app (handleAppOpen e a sys)) = c \<and>
       calls (handleAppOpen e a sys) = calls sys"
    by (intro replay_cached) simp_all
  then show "llmContent (app (handleAppOpen e a sys)) = c"
    "calls (handleAppOpen e a sys) = calls sys" by simp_all
qed

text \<open>
  The theorem at the calendar app opened in the initial state, and at a click inside
  the calendar app, where the remote stream sends two texts and fails; the click is
  then repeated after the app has been left and opened again.
\<close>

theorem failed_generation_is_cached_witness:
  "API_KEY demo_env \<and> app_id calendar_app \<noteq> ''task_handoff_app'' \<and>
   \<not> truthy (appContentCache (app initial_system) (app_id calendar_app)) \<and>
   failure (generateContentStream demo_env (length (calls initial_system))
     [initialInteraction calendar_app] (MAX_HISTORY_LENGTH demo_env) None) =
     Some (ErrorInstance ''network'') \<and>
   appContentCache
     (app (run demo_env (rendered [AppOpen calendar_app, Resume 0, Resume 0, Resume 0, Resume 0])
        initial_system))
     ''calendar_app'' = Some (''<p>old'' @ error_block (ErrorInstance ''network'')) \<and>
   standard_interaction (click ''next'') \<and> active_not_stateless (app in_app_system) \<and>
   activeApp (app in_app_system) = Some calendar_app \<and>
   currentAppPath (app in_app_system) = [app_id calendar_app] \<and>
   \<not> truthy (appContentCache (app in_app_system) ''calendar_app__next'') \<and>
   failure (generateContentStream demo_env (length (calls in_app_system))
     (history_after demo_env (app in_app_system) (click ''next''))
     (MAX_HISTORY_LENGTH demo_env) (Some (llmContent (app in_app_system)))) =
     Some (ErrorInstance ''network'') \<and>
   currentAppPath
     (app (run demo_env
        (rendered [Interaction (click ''next''), Resume 0, Resume 0, Resume 0, Resume 0])
        in_app_system)) = [''calendar_app'', ''next''] \<and>
   appContentCache
     (app (run demo_env
        (rendered [Interaction (click ''next''), Resume 0, Resume 0, Resume 0, Resume 0])
        in_app_system))
     ''calendar_app__next'' = Some (''<p>old'' @ error_block (ErrorInstance ''network'')) \<and>
   llmContent
     (app (run demo_env [ExitToDesktop, AppOpen calendar_app, Interaction (click ''next'')]
        (run demo_env
           (rendered [Interaction (click ''next''), Resume 0, Resume 0, Resume 0, Resume 0])
           in_app_system))) = ''<p>old'' @ error_block (ErrorInstance ''network'')"
proof -
  have h1: "API_KEY demo_env" by (simp add: demo_env_def)
  have h2: "app_id calendar_app \<noteq> ''task_handoff_app''" by (simp add: calendar_app_def)
  have h3: "\<not> truthy (appContentCache (app initial_system) (app_id calendar_app))"
    by (simp add: initial_system_def initial_state_def truthy_def)
  have h4: "failure (generateContentStream demo_env (length (calls initial_system))
     [initialInteraction calendar_app] (MAX_HISTORY_LENGTH demo_env) None) =
     Some (ErrorInstance ''network'')"
    by (simp add: demo_env_def demo_response_def initial_system_def)
  have t: "concat (map chunk_yield (chunks (generateContentStream demo_env (length (calls initial_system))
                       [initialInteraction calendar_app] (MAX_HISTORY_LENGTH demo_env) None))) =
           [''<p>'', ''old'']"
    by (simp add: demo_env_def demo_response_def initial_system_def chunk_yield_def truthy_def)
  have c: "calls initial_system = []" "app_id calendar_app = ''calendar_app''"
    by (simp_all add: initial_system_def calendar_app_def)
  have g1: "standard_interaction (click ''next'')"
    by (simp add: standard_interaction_def click_def)
  have g2: "active_not_stateless (app in_app_system)"
    by (simp add: active_not_stateless_def in_app_system_def calendar_app_def)
  have g3: "activeApp (app in_app_system) = Some calendar_app"
    "currentAppPath (app in_app_system) = [app_id calendar_app]"
    by (simp_all add: in_app_system_def calendar_app_def)
  have p: "path_after (app in_app_system) (click ''next'') = [''calendar_app'', ''next'']"
    by (simp add: path_after_def in_app_system_def click_def)
  have j: "join ''__'' [''calendar_app'', ''next''] = ''calendar_app__next''" by simp
  have g4: "\<not> truthy (appContentCache (app in_app_system) ''calendar_app__next'')"
    by (simp add: in_app_system_def initial_state_def truthy_def)
  have g5: "failure (generateContentStream demo_env (length (calls in_app_system))
     (history_after demo_env (app in_app_system) (click ''next''))
     (MAX_HISTORY_LENGTH demo_env) (Some (llmContent (app in_app_system)))) =
     Some (ErrorInstance ''network'')"
    by (simp add: demo_env_def demo_response_def in_app_system_def)
  have t2: "concat (map chunk_yield (chunks (generateContentStream demo_env (length (calls in_app_system))
     (history_after demo_env (app in_app_system) (click ''next''))
     (MAX_HISTORY_LENGTH demo_env) (Some (llmContent (app in_app_system)))))) =
           [''<p>'', ''old'']"
    by (simp add: demo_env_def demo_response_def in_app_system_def chunk_yield_def truthy_def)
  have c2: "calls in_app_system = []" "iid (click ''next'') = ''next''"
    by (simp_all add: in_app_system_def click_def)
  from failed_generation_is_cached [OF h1, where a = calendar_app and sys = initial_system
      and err = "ErrorInstance ''network''"] h2 h3 h4
  have A: "appContentCache
     (app (run demo_env (rendered [AppOpen calendar_app, Resume 0, Resume 0, Resume 0, Resume 0])
        initial_system))
     ''calendar_app'' = Some (''<p>old'' @ error_block (ErrorInstance ''network''))"
    unfolding Let_def t by (simp add: c)
  from failed_generation_is_cached [OF h1, where a = calendar_app and sys = in_app_system
      and err = "ErrorInstance ''network''" and d = "click ''next''"] g1 g2 g3 g4 g5
  have B: "currentAppPath
     (app (run demo_env
        (rendered [Interaction (click ''next''), Resume 0, Resume 0, Resume 0, Resume 0])
        in_app_system)) = [''calendar_app'', ''next''] \<and>
   appContentCache
     (app (run demo_env
        (rendered [Interaction (click ''next''), Resume 0, Resume 0, Resume 0, Resume 0])
        in_app_system))
     ''calendar_app__next'' = Some (''<p>old'' @ error_block (ErrorInstance ''network'')) \<and>
   llmContent
     (app (run demo_env [ExitToDesktop, AppOpen calendar_app, Interaction (click ''next'')]
        (run demo_env
           (rendered [Interaction (click ''next''), Resume 0, Resume 0, Resume 0, Resume 0])
           in_app_system))) = ''<p>old'' @ error_block (ErrorInstance ''network'')"
    unfolding Let_def t2 p j by (simp add: c2)
  from h1 h2 h3 h4 A g1 g2 g3 g4 g5 B show ?thesis by blast
qed

text \<open>
  Claim C1 as stated fails: in this run the stream fails mid-way and ends with the
  error block, the cache has no entry for the path key before, and holds the partial
  content with the error block after.
\<close>

theorem failed_generation_counterexample:
  "streamAppContent True (\<lambda>u. u) (\<lambda>h m p. demo_response 0) [initialInteraction calendar_app] 3 None =
     [''<p>'', ''old'', error_block (ErrorInstance ''network'')] \<and>
   appContentCache (app initial_system) ''calendar_app'' = None \<and>
   appContentCache
     (app (run demo_env
        [AppOpen calendar_app, Render, Resume 0, Render, Resume 0, Render, Resume 0, Render,
         Resume 0, Render] initial_system))
     ''calendar_app'' = Some (''<p>old'' @ error_block (ErrorInstance ''network''))"
proof -
  have h1: "API_KEY demo_env" by (simp add: demo_env_def)
  have h2: "app_id calendar_app \<noteq> ''task_handoff_app''" by (simp add: calendar_app_def)
  have h3: "\<not> truthy (appContentCache (app initial_system) (app_id calendar_app))"
    by (simp add: initial_system_def initial_state_def truthy_def)
  have h4: "failure (generateContentStream demo_env (length (calls initial_system))
     [initialInteraction calendar_app] (MAX_HISTORY_LENGTH demo_env) None) =
     Some (ErrorInstance ''network'')"
    by (simp add: demo_env_def demo_response_def initial_system_def)
  have t: "concat (map chunk_yield (chunks (generateContentStream demo_env (length (calls initial_system))
                       [initialInteraction calendar_app] (MAX_HISTORY_LENGTH demo_env) None))) =
           [''<p>'', ''old'']"
    by (simp add: demo_env_def demo_response_def initial_system_def chunk_yield_def truthy_def)
  have c: "calls initial_system = []" "app_id calendar_app = ''calendar_app''"
    by (simp_all add: initial_system_def calendar_app_def)
  have r: "rendered [AppOpen calendar_app, Resume 0, Resume 0, Resume 0, Resume 0] =
      [AppOpen calendar_app, Render, Resume 0, Render, Resume 0, Render, Resume 0, Render,
         Resume 0, Render]"
    by (simp add: rendered_def)
  have "appContentCache (app initial_system) ''calendar_app'' = None"
    by (simp add: initial_system_def initial_state_def)
  moreover have "appContentCache
     (app (run demo_env (rendered [AppOpen calendar_app, Resume 0, Resume 0, Resume 0, Resume 0])
        initial_system))
     ''calendar_app'' = Some (''<p>old'' @ error_block (ErrorInstance ''network''))"
    using failed_generation [OF h1 h2 h3 h4] unfolding t by (simp add: c)
  ultimately show ?thesis by (simp only: demo_stream r simp_thms)
qed

subsection \<open>Fragments of a superseded stream\<close>

text \<open>
  Claim C2, as amended. A fragment delivered by any call that has not ended is
  appended to the shared current content and to the local accumulator of that call,
  whatever has been handled since the call started. A new interaction that starts a
  generation clears the content and adds a call with an empty accumulator, but leaves
  the older calls as they are: the next fragment of an older stream becomes the
  content.
\<close>

theorem superseded_stream_still_appends:
  assumes "k < length (calls sys)" and "\<not> settled (calls sys ! k)"
    and "pending (calls sys ! k) = f # fs"
  shows "llmContent (app (resume k sys)) = llmContent (app sys) @ f \<and>
         accumulatedContent (calls (resume k sys) ! k) = accumulatedContent (calls sys ! k) @ f \<and>
         (standard_interaction d \<and>
          \<not> truthy (appContentCache (app sys)
               (join ''__'' (if activeApp (app sys) \<noteq> None
                             then currentAppPath (app sys) @ [iid d] else [iid d]))) \<longrightarrow>
            llmContent (app (handleInteraction e d sys)) = [] \<and>
            length (calls (handleInteraction e d sys)) = Suc (length (calls sys)) \<and>
            accumulatedContent (calls (handleInteraction e d sys) ! length (calls sys)) = [] \<and>
            calls (handleInteraction e d sys) ! k = calls sys ! k \<and>
            llmContent (app (resume k (handleInteraction e d sys))) = f)"
proof (intro conjI impI)
  have r: "resume k sys =
    sys\<lparr>app := (app sys)\<lparr>llmContent := llmContent (app sys) @ f\<rparr>,
        calls := (calls sys)
          [k := (calls sys ! k)\<lparr>accumulatedContent := accumulatedContent (calls sys ! k) @ f,
                                 pending := fs\<rparr>]\<rparr>"
    using assms by (rule resume_fragment)
  show "llmContent (app (resume k sys)) = llmContent (app sys) @ f"
    by (simp add: r)
  show "accumulatedContent (calls (resume k sys) ! k) = accumulatedContent (calls sys ! k) @ f"
    using assms(1) by (simp add: r)
next
  assume a: "standard_interaction d \<and>
          \<not> truthy (appContentCache (app sys)
               (join ''__'' (if activeApp (app sys) \<noteq> None
                             then currentAppPath (app sys) @ [iid d] else [iid d])))"
  define sys' where "sys' = handleInteraction e d sys"
  have h: "llmContent (app sys') = [] \<and> calls sys' = calls sys @
      [\<lparr>accumulatedContent = [],
        pending = streamAppContent (API_KEY e) (encodeURI e)
                    (generateContentStream e (length (calls sys)))
                    (d # slice0 (interactionHistory (app sys)) (MAX_HISTORY_LENGTH e - 1))
                    (MAX_HISTORY_LENGTH e) (Some (llmContent (app sys))),
        ending = Returns, settled = False\<rparr>]"
    unfolding sys'_def using a
    by (simp add: handleInteraction_standard standard_app_logic_def Let_def
        internalHandleLlmRequest_def)
  then have k': "k < length (calls sys')" "calls sys' ! k = calls sys ! k"
    using assms(1) by (simp_all add: nth_append)
  have "resume k sys' =
    sys'\<lparr>app := (app sys')\<lparr>llmContent := llmContent (app sys') @ f\<rparr>,
        calls := (calls sys')
          [k := (calls sys' ! k)\<lparr>accumulatedContent := accumulatedContent (calls sys' ! k) @ f,
                                 pending := fs\<rparr>]\<rparr>"
    using k'(1) assms(2,3) unfolding k'(2) [symmetric] by (rule resume_fragment)
  then have "llmContent (app (resume k sys')) = f" using h by simp
  then show "llmContent (app (handleInteraction e d sys)) = []"
    "length (calls (handleInteraction e d sys)) = Suc (length (calls sys))"
    "accumulatedContent (calls (handleInteraction e d sys) ! length (calls sys)) = []"
    "calls (handleInteraction e d sys) ! k = calls sys ! k"
    "llmContent (app (resume k (handleInteraction e d sys))) = f"
    using h k' by (simp_all add: sys'_def [symmetric])
qed

text \<open>
  The theorem at the calendar app while its stream is delivering, superseded by a
  click.
\<close>

theorem superseded_stream_still_appends_witness:
  "0 < length (calls streaming_system) \<and> \<not> settled (calls streaming_system ! 0) \<and>
   pending (calls streaming_system ! 0) = [''old'', error_block (ErrorInstance ''network'')] \<and>
   standard_interaction (click ''next'') \<and>
   \<not> truthy (appContentCache (app streaming_system) ''calendar_app__next'') \<and>
   llmContent (app streaming_system) = ''<p>'' \<and>
   llmContent (app (resume 0 streaming_system)) = ''<p>old'' \<and>
   llmContent (app (handleInteraction demo_env (click ''next'') streaming_system)) = [] \<and>
   llmContent (app (resume 0 (handleInteraction demo_env (click ''next'') streaming_system))) = ''old''"
proof -
  have s: "streaming_system =
    \<lparr>app = initial_state\<lparr>interactionHistory := [initialInteraction calendar_app],
             currentAppPath := [''calendar_app''], activeApp := Some calendar_app,
             llmContent := ''<p>'', error := None, isLoading := True\<rparr>,
     calls = [\<lparr>accumulatedContent = ''<p>'',
               pending = [''old'', error_block (ErrorInstance ''network'')],
               ending = Returns, settled = False\<rparr>]\<rparr>"
    by (simp add: streaming_system_def run_def handleAppOpen_def internalHandleLlmRequest_def
        resume_def Let_def demo_env_def demo_response_def calendar_app_def initial_system_def
        initial_state_def truthy_def streamAppContent_def stream_response_def chunk_yield_def
        initialInteraction_def)
  have h1: "0 < length (calls streaming_system)" by (simp add: s)
  have h2: "\<not> settled (calls streaming_system ! 0)" by (simp add: s)
  have h3: "pending (calls streaming_system ! 0) = ''old'' # [error_block (ErrorInstance ''network'')]"
    by (simp add: s)
  have h4: "standard_interaction (click ''next'')"
    by (simp add: standard_interaction_def click_def)
  have h5: "\<not> truthy (appContentCache (app streaming_system) ''calendar_app__next'')"
    by (simp add: s initial_state_def truthy_def)
  have p: "join ''__'' (if activeApp (app streaming_system) \<noteq> None
             then currentAppPath (app streaming_system) @ [iid (click ''next'')]
             else [iid (click ''next'')]) = ''calendar_app__next''"
    by (simp add: s click_def)
  have l: "llmContent (app streaming_system) = ''<p>''" by (simp add: s)
  from superseded_stream_still_appends [OF h1 h2 h3, of "click ''next''" demo_env]
  show ?thesis unfolding p using h1 h2 h3 h4 h5 l by simp
qed

text \<open>
  Claim C2 as stated fails: after a click has superseded the first stream and cleared
  the content, the next fragment of the first stream changes the content, and the
  content then holds fragments of two generations.
\<close>

theorem superseded_stream_counterexample:
  "llmContent (app (run demo_env [AppOpen calendar_app, Resume 0, Interaction (click ''next'')]
     initial_system)) = [] \<and>
   llmContent (app (run demo_env [AppOpen calendar_app, Resume 0, Interaction (click ''next''),
     Resume 0] initial_system)) = ''old'' \<and>
   llmContent (app (run demo_env [AppOpen calendar_app, Resume 0, Interaction (click ''next''),
     Resume 0, Resume 1] initial_system)) = ''old<h1>''"
  by (simp add: run_def handleAppOpen_def handleInteraction_def standard_app_logic_def
      internalHandleLlmRequest_def resume_def Let_def demo_env_def demo_response_def
      calendar_app_def click_def initial_system_def initial_state_def truthy_def slice0_def
      streamAppContent_def stream_response_def chunk_yield_def)

end
